theory Spec2Isabelle
  imports Main
begin

section \<open>Python strings and integers\<close>

text \<open>
  Strings are lists of bytes; the bot's identifiers and offset lists are ASCII.
  \<open>is_space\<close> is the ASCII part of what \<^verbatim>\<open>str.strip()\<close> and
  \<^verbatim>\<open>str.split()\<close> treat as whitespace (TAB..CR, FS..US and the blank).
\<close>

definition is_space :: "char \<Rightarrow> bool" where
  "is_space c = (let n = (of_char c :: nat) in (9 \<le> n \<and> n \<le> 13) \<or> (28 \<le> n \<and> n \<le> 32))"

definition strip :: "string \<Rightarrow> string" where
  "strip s = rev (dropWhile is_space (rev (dropWhile is_space s)))"

text \<open>\<^verbatim>\<open>s.split(sep)\<close> cuts at every separator and keeps empty pieces.\<close>

fun split_where :: "(char \<Rightarrow> bool) \<Rightarrow> string \<Rightarrow> string list" where
  "split_where P [] = [[]]"
| "split_where P (x # xs) =
     (if P x then [] # split_where P xs
      else (case split_where P xs of [] \<Rightarrow> [[x]] | y # ys \<Rightarrow> (x # y) # ys))"

definition split_on :: "char \<Rightarrow> string \<Rightarrow> string list" where
  "split_on c s = split_where (\<lambda>x. x = c) s"

text \<open>\<^verbatim>\<open>s.split()\<close> cuts at runs of whitespace and drops empty pieces.\<close>

definition py_split :: "string \<Rightarrow> string list" where
  "py_split s = filter (\<lambda>w. w \<noteq> []) (split_where is_space s)"

definition is_digit :: "char \<Rightarrow> bool" where
  "is_digit c = (48 \<le> (of_char c :: nat) \<and> (of_char c :: nat) \<le> 57)"

definition digit_char :: "nat \<Rightarrow> char" where
  "digit_char d = char_of (48 + d)"

definition digit_val :: "char \<Rightarrow> nat" where
  "digit_val c = (of_char c :: nat) - 48"

text \<open>
  \<^verbatim>\<open>int(text)\<close>: surrounding whitespace, an optional sign, then decimal digits in
  which single underscores may separate digits. Anything else raises ValueError
  (\<open>None\<close> here). The flag of \<open>digits_ok\<close> records that the previous character
  was a digit. Integers are unbounded; the interpreter's cap on the number of digits
  of one literal is left out.
\<close>

fun digits_ok :: "bool \<Rightarrow> string \<Rightarrow> bool" where
  "digits_ok prev [] = prev"
| "digits_ok prev (c # cs) =
     (if is_digit c then digits_ok True cs
      else if c = CHR ''_'' \<and> prev then digits_ok False cs
      else False)"

definition digits_value :: "string \<Rightarrow> nat" where
  "digits_value s = foldl (\<lambda>a c. 10 * a + digit_val c) 0 (filter is_digit s)"

definition py_int :: "string \<Rightarrow> int option" where
  "py_int s =
     (case strip s of
        [] \<Rightarrow> None
      | c # cs \<Rightarrow>
          if c = CHR ''-'' then
            (if digits_ok False cs then Some (- int (digits_value cs)) else None)
          else if c = CHR ''+'' then
            (if digits_ok False cs then Some (int (digits_value cs)) else None)
          else
            (if digits_ok False (c # cs) then Some (int (digits_value (c # cs))) else None))"

text \<open>\<^verbatim>\<open>str(n)\<close> for an integer, as the f-strings and \<^verbatim>\<open>map(str, ...)\<close> use it.\<close>

fun digits :: "nat \<Rightarrow> string" where
  "digits n = (if n < 10 then [digit_char n] else digits (n div 10) @ [digit_char (n mod 10)])"

declare digits.simps [simp del]

definition str_int :: "int \<Rightarrow> string" where
  "str_int i = (if i < 0 then CHR ''-'' # digits (nat (- i)) else digits (nat i))"

text \<open>\<^verbatim>\<open>sep.join(parts)\<close>.\<close>

fun join :: "string \<Rightarrow> string list \<Rightarrow> string" where
  "join sep [] = []"
| "join sep [x] = x"
| "join sep (x # y # ys) = x @ sep @ join sep (y # ys)"

text \<open>Truthiness of an optional string: \<^verbatim>\<open>None\<close> and \<^verbatim>\<open>""\<close> are false.\<close>

definition truthy :: "string option \<Rightarrow> bool" where
  "truthy s = (case s of None \<Rightarrow> False | Some t \<Rightarrow> t \<noteq> [])"

section \<open>Exceptions\<close>

datatype error =
    ValueError
  | OverflowError
  | TypeError
  | NameError
  | IntegrityError
  | JobLookupError
  | DeliveryError

section \<open>Instants\<close>

text \<open>
  An aware UTC \<^verbatim>\<open>datetime\<close> is the number of microseconds since the epoch.
  The columns \<^verbatim>\<open>when_utc\<close> and \<^verbatim>\<open>created_at\<close> hold \<^verbatim>\<open>dt.isoformat()\<close> and are read
  back with \<^verbatim>\<open>datetime.fromisoformat\<close>, which is its inverse, so a column holds the
  instant itself. Python's datetimes range over the years 1 to 9999; arithmetic that
  leaves the range raises OverflowError.
\<close>

type_synonym instant = int

definition DT_MIN :: instant where
  "DT_MIN = - 62135596800000000"

definition DT_MAX :: instant where
  "DT_MAX = 253402300799999999"

text \<open>\<^verbatim>\<open>run_dt - timedelta(minutes=m)\<close>.\<close>

definition minus_minutes :: "instant \<Rightarrow> int \<Rightarrow> error + instant" where
  "minus_minutes dt m =
     (let r = dt - m * 60000000
      in if r < DT_MIN \<or> DT_MAX < r then Inl OverflowError else Inr r)"

section \<open>Lead offsets\<close>

text \<open>
  \<^verbatim>\<open>{int(x.strip()) for x in s.split(',') if x.strip()}\<close>: the set is a list without
  duplicates; one piece that is not an integer makes the whole comprehension raise.
\<close>

definition lead_set :: "string \<Rightarrow> error + int list" where
  "lead_set s =
     (case those (map (\<lambda>x. py_int (strip x)) (filter (\<lambda>x. strip x \<noteq> []) (split_on CHR '','' s))) of
        None \<Rightarrow> Inl ValueError
      | Some xs \<Rightarrow> Inr (remdups xs))"

text \<open>
  \<^verbatim>\<open>sorted({...}, reverse=True)\<close> followed by \<^verbatim>\<open>[m for m in ... if m > 0]\<close>, the two
  lines shared by \<^verbatim>\<open>event_create\<close> and \<^verbatim>\<open>schedule_loaded_jobs\<close>.
\<close>

definition parse_lead_minutes :: "string \<Rightarrow> error + int list" where
  "parse_lead_minutes s =
     (case lead_set s of
        Inl e \<Rightarrow> Inl e
      | Inr xs \<Rightarrow> Inr (filter (\<lambda>m. 0 < m) (rev (sort xs))))"

section \<open>The job table\<close>

datatype trigger =
    DateTrigger instant
  | CronTrigger string string string string string

text \<open>
  What a job's callback does when it fires: \<^verbatim>\<open>send_event(g, c, t, r)\<close> with the values
  captured by the lambda's default arguments, or \<^verbatim>\<open>send_reminder(r)\<close>.
\<close>

datatype action =
    SendEvent int int string "int option"
  | SendReminder int

record job =
  job_id :: string
  job_trigger :: trigger
  job_action :: action

definition event_key :: "int \<Rightarrow> string" where
  "event_key ev = ''event:'' @ str_int ev"

definition lead_key :: "int \<Rightarrow> int \<Rightarrow> string" where
  "lead_key ev m = ''event:'' @ str_int ev @ '':lead:'' @ str_int m"

definition reminder_key :: "int \<Rightarrow> string" where
  "reminder_key rid = ''reminder:'' @ str_int rid"

text \<open>
  \<^verbatim>\<open>scheduler.add_job(..., id=..., replace_existing=True)\<close>: a job with the same id is
  replaced where it stands, a new id is appended.
\<close>

fun add_job :: "job \<Rightarrow> job list \<Rightarrow> job list" where
  "add_job j [] = [j]"
| "add_job j (k # ks) = (if job_id k = job_id j then j # ks else k # add_job j ks)"

text \<open>\<^verbatim>\<open>scheduler.remove_job(id)\<close> raises JobLookupError when no job has the id.\<close>

definition remove_job :: "string \<Rightarrow> job list \<Rightarrow> error + job list" where
  "remove_job i js =
     (if i \<in> set (map job_id js) then Inr (filter (\<lambda>j. job_id j \<noteq> i) js)
      else Inl JobLookupError)"

text \<open>\<^verbatim>\<open>try: scheduler.remove_job(id) except Exception: pass\<close>.\<close>

definition try_remove_job :: "string \<Rightarrow> job list \<Rightarrow> job list" where
  "try_remove_job i js = (case remove_job i js of Inl e \<Rightarrow> js | Inr js' \<Rightarrow> js')"

definition job_ids :: "job list \<Rightarrow> string list" where
  "job_ids js = map job_id js"

definition jobs_with_id :: "string \<Rightarrow> job list \<Rightarrow> job list" where
  "jobs_with_id i js = filter (\<lambda>j. job_id j = i) js"

definition event_job :: "int \<Rightarrow> trigger \<Rightarrow> int \<Rightarrow> int \<Rightarrow> string \<Rightarrow> int option \<Rightarrow> job" where
  "event_job ev trg g c t r =
     \<lparr>job_id = event_key ev, job_trigger = trg, job_action = SendEvent g c t r\<rparr>"

definition lead_job :: "int \<Rightarrow> int \<Rightarrow> instant \<Rightarrow> int \<Rightarrow> int \<Rightarrow> string \<Rightarrow> int option \<Rightarrow> job" where
  "lead_job ev m lead_dt g c t r =
     \<lparr>job_id = lead_key ev m, job_trigger = DateTrigger lead_dt,
      job_action = SendEvent g c (t @ '' starts in '' @ str_int m @ '' min'') r\<rparr>"

definition reminder_job :: "int \<Rightarrow> instant \<Rightarrow> job" where
  "reminder_job rid when_dt =
     \<lparr>job_id = reminder_key rid, job_trigger = DateTrigger when_dt, job_action = SendReminder rid\<rparr>"

section \<open>The store\<close>

record event_row =
  ev_id :: int
  ev_guild_id :: int
  ev_channel_id :: int
  ev_title :: string
  ev_when_utc :: "instant option"
  ev_cron :: "string option"
  ev_mention_role_id :: "int option"
  ev_created_by :: int
  ev_created_at :: instant
  ev_lead_minutes :: "string option"
  ev_message_id :: "int option"

record reminder_row =
  rm_id :: int
  rm_guild_id :: "int option"
  rm_channel_id :: "int option"
  rm_user_id :: "int option"
  rm_message :: string
  rm_when_utc :: instant
  rm_mention_role_id :: "int option"
  rm_created_at :: instant

record rsvp_row =
  rs_event_id :: int
  rs_user_id :: int
  rs_status :: string
  rs_updated_at :: instant

text \<open>
  The four tables, each in rowid order. \<open>events_seq\<close> and \<open>reminders_seq\<close> are the
  AUTOINCREMENT counters: the largest id ever handed out.
\<close>

record database =
  user_prefs :: "(int \<times> string) list"
  events :: "event_row list"
  events_seq :: int
  reminders :: "reminder_row list"
  reminders_seq :: int
  event_rsvps :: "rsvp_row list"

definition empty_db :: database where
  "empty_db = \<lparr>user_prefs = [], events = [], events_seq = 0,
               reminders = [], reminders_seq = 0, event_rsvps = []\<rparr>"

text \<open>The next AUTOINCREMENT id: one more than every id in the table and the counter.\<close>

definition next_id :: "int \<Rightarrow> int list \<Rightarrow> int" where
  "next_id seq ids = 1 + fold max ids seq"

section \<open>Startup rescheduling\<close>

text \<open>
  The inner loop over the lead offsets, written twice in the source (in
  \<^verbatim>\<open>schedule_loaded_jobs\<close> and in \<^verbatim>\<open>event_create\<close>) with the same body. The
  subtraction is outside every \<^verbatim>\<open>try\<close>: an OverflowError leaves the loop with the
  jobs installed so far.
\<close>

fun schedule_leads ::
  "instant \<Rightarrow> int \<Rightarrow> int \<Rightarrow> int \<Rightarrow> string \<Rightarrow> int option \<Rightarrow> instant \<Rightarrow> int list \<Rightarrow> job list
     \<Rightarrow> job list \<times> error option" where
  "schedule_leads now ev g c t r run_dt [] js = (js, None)"
| "schedule_leads now ev g c t r run_dt (m # ms) js =
     (case minus_minutes run_dt m of
        Inl e \<Rightarrow> (js, Some e)
      | Inr lead_dt \<Rightarrow>
          schedule_leads now ev g c t r run_dt ms
            (if now < lead_dt then add_job (lead_job ev m lead_dt g c t r) js else js))"

text \<open>
  \<^verbatim>\<open>if lead_str: try: mins_list = ... except Exception: mins_list = []\<close>; without a
  lead string the loop does not run.
\<close>

definition stored_lead_offsets :: "string option \<Rightarrow> int list" where
  "stored_lead_offsets lead_str =
     (case lead_str of
        None \<Rightarrow> []
      | Some s \<Rightarrow>
          if s = [] then []
          else (case parse_lead_minutes s of Inl e \<Rightarrow> [] | Inr ms \<Rightarrow> ms))"

text \<open>The jobs of a stored row: the lambdas capture the row's own columns.\<close>

definition row_event_job :: "event_row \<Rightarrow> trigger \<Rightarrow> job" where
  "row_event_job row trg =
     event_job (ev_id row) trg (ev_guild_id row) (ev_channel_id row) (ev_title row)
       (ev_mention_role_id row)"

definition row_lead_job :: "event_row \<Rightarrow> int \<Rightarrow> instant \<Rightarrow> job" where
  "row_lead_job row m lead_dt =
     lead_job (ev_id row) m lead_dt (ev_guild_id row) (ev_channel_id row) (ev_title row)
       (ev_mention_role_id row)"

text \<open>
  The body of the first loop for one row: the primary job when the instant is still
  ahead, then the lead offsets whatever the instant is.
\<close>

definition schedule_dated_event :: "instant \<Rightarrow> event_row \<Rightarrow> instant \<Rightarrow> job list \<Rightarrow> job list \<times> error option" where
  "schedule_dated_event now row run_dt js =
     schedule_leads now (ev_id row) (ev_guild_id row) (ev_channel_id row) (ev_title row)
       (ev_mention_role_id row) run_dt (stored_lead_offsets (ev_lead_minutes row))
       (if now < run_dt then add_job (row_event_job row (DateTrigger run_dt)) js else js)"

text \<open>First loop: the rows with \<^verbatim>\<open>when_utc IS NOT NULL\<close>.\<close>

fun schedule_dated_events :: "instant \<Rightarrow> event_row list \<Rightarrow> job list \<Rightarrow> job list \<times> error option" where
  "schedule_dated_events now [] js = (js, None)"
| "schedule_dated_events now (row # rows) js =
     (case ev_when_utc row of
        None \<Rightarrow> schedule_dated_events now rows js
      | Some run_dt \<Rightarrow>
          (case schedule_dated_event now row run_dt js of
             (js', Some e) \<Rightarrow> (js', Some e)
           | (js', None) \<Rightarrow> schedule_dated_events now rows js'))"

text \<open>
  \<^verbatim>\<open>minute, hour, dom, month, dow = expr.split()\<close> raises ValueError unless there are
  exactly five fields; \<^verbatim>\<open>CronTrigger(...)\<close> raises ValueError on a field it cannot
  parse. The trigger's own field grammar belongs to the scheduling library and is the
  parameter \<open>fields_ok\<close>.
\<close>

definition cron_trigger ::
  "(string \<Rightarrow> string \<Rightarrow> string \<Rightarrow> string \<Rightarrow> string \<Rightarrow> bool) \<Rightarrow> string \<Rightarrow> error + trigger" where
  "cron_trigger fields_ok expr =
     (case py_split expr of
        [f_minute, f_hour, f_dom, f_month, f_dow] \<Rightarrow>
          if fields_ok f_minute f_hour f_dom f_month f_dow
          then Inr (CronTrigger f_minute f_hour f_dom f_month f_dow)
          else Inl ValueError
      | _ \<Rightarrow> Inl ValueError)"

datatype log_entry = BadCron int error

text \<open>
  Second loop: the rows with \<^verbatim>\<open>cron IS NOT NULL\<close>, each in its own
  \<^verbatim>\<open>try ... except Exception as e: log.warning(...)\<close>.
\<close>

fun schedule_cron_events ::
  "(string \<Rightarrow> string \<Rightarrow> string \<Rightarrow> string \<Rightarrow> string \<Rightarrow> bool) \<Rightarrow> event_row list \<Rightarrow> job list \<Rightarrow> log_entry list
     \<Rightarrow> job list \<times> log_entry list" where
  "schedule_cron_events fields_ok [] js lg = (js, lg)"
| "schedule_cron_events fields_ok (row # rows) js lg =
     (case ev_cron row of
        None \<Rightarrow> schedule_cron_events fields_ok rows js lg
      | Some cron_expr \<Rightarrow>
          (case cron_trigger fields_ok cron_expr of
             Inr trg \<Rightarrow>
               schedule_cron_events fields_ok rows
                 (add_job (row_event_job row trg) js) lg
           | Inl e \<Rightarrow> schedule_cron_events fields_ok rows js (lg @ [BadCron (ev_id row) e])))"

text \<open>Third loop: every reminder, scheduled when still in the future.\<close>

fun schedule_reminders :: "instant \<Rightarrow> reminder_row list \<Rightarrow> job list \<Rightarrow> job list" where
  "schedule_reminders now [] js = js"
| "schedule_reminders now (row # rows) js =
     schedule_reminders now rows
       (if now < rm_when_utc row then add_job (reminder_job (rm_id row) (rm_when_utc row)) js
        else js)"

text \<open>
  \<^verbatim>\<open>schedule_loaded_jobs()\<close>, with the scheduler, the clock and the store passed in.
  The source reads \<^verbatim>\<open>datetime.now(timezone.utc)\<close> at every comparison; the readings
  of one call are taken to be the one instant \<open>now\<close>. The result is the job table,
  the warnings logged and the exception that ended the call, if any.
\<close>

definition schedule_loaded_jobs ::
  "(string \<Rightarrow> string \<Rightarrow> string \<Rightarrow> string \<Rightarrow> string \<Rightarrow> bool) \<Rightarrow> instant \<Rightarrow> database \<Rightarrow> job list
     \<Rightarrow> job list \<times> log_entry list \<times> error option" where
  "schedule_loaded_jobs fields_ok now d js =
     (case schedule_dated_events now (events d) js of
        (js1, Some e) \<Rightarrow> (js1, [], Some e)
      | (js1, None) \<Rightarrow>
          (case schedule_cron_events fields_ok (events d) js1 [] of
             (js2, lg) \<Rightarrow> (schedule_reminders now (reminders d) js2, lg, None)))"

section \<open>Replies and the chat platform\<close>

text \<open>
  What a command answers through \<^verbatim>\<open>interaction.response.send_message\<close>, by the
  message it sends, or the exception that leaves the coroutine.
\<close>

datatype response =
    PickTextChannel
  | ProvideWhenOrCron
  | CouldntParseTime
  | BadLeadMinutes
  | EventCreatedAnnounced
  | RecurringEventCreated
  | BadCronExpression
  | EventDeleted
  | EventNotFound
  | ReminderDeleted
  | ReminderNotFound
  | RsvpUpdated string

datatype outcome = Reply response | Raised error

text \<open>\<^verbatim>\<open>user_timezone\<close>: the stored zone of a user, or the default.\<close>

definition user_timezone :: "database \<Rightarrow> int \<Rightarrow> string" where
  "user_timezone d uid =
     (case map_of (user_prefs d) uid of None \<Rightarrow> ''America/Chicago'' | Some tz \<Rightarrow> tz)"

text \<open>Truthiness of an optional integer column: \<^verbatim>\<open>None\<close> and \<^verbatim>\<open>0\<close> are false.\<close>

definition truthy_int :: "int option \<Rightarrow> bool" where
  "truthy_int x = (case x of None \<Rightarrow> False | Some n \<Rightarrow> n \<noteq> 0)"

section \<open>Creating an event\<close>

text \<open>
  \<^verbatim>\<open>announce_event\<close>: load the row, post the RSVP embed, remember the id of the posted
  message. The embed's text plays no part in what is stored; \<open>sent\<close> is what
  \<^verbatim>\<open>channel.send\<close> does: the id of the new message, or \<open>None\<close> when it raises.
\<close>

definition announce_event :: "int option \<Rightarrow> int \<Rightarrow> database \<Rightarrow> database \<times> error option" where
  "announce_event sent event_id d =
     (case find (\<lambda>r. ev_id r = event_id) (events d) of
        None \<Rightarrow> (d, None)
      | Some row \<Rightarrow>
          (case sent of
             None \<Rightarrow> (d, Some DeliveryError)
           | Some mid \<Rightarrow>
               (d\<lparr>events := map (\<lambda>r. if ev_id r = event_id then r\<lparr>ev_message_id := Some mid\<rparr> else r)
                               (events d)\<rparr>,
                None)))"

text \<open>
  The arguments of \<^verbatim>\<open>/event create\<close>. \<open>rq_channel\<close> is the channel option (a text
  channel when given), \<open>rq_here\<close> is \<^verbatim>\<open>interaction.channel\<close> when that is a text
  channel.
\<close>

record create_request =
  rq_guild_id :: "int option"
  rq_user_id :: int
  rq_channel :: "int option"
  rq_here :: "int option"
  rq_title :: string
  rq_when :: "string option"
  rq_mention_role :: "int option"
  rq_cron :: "string option"
  rq_lead_minutes :: "string option"

text \<open>
  \<^verbatim>\<open>if when: ... dt_utc = parse_human_time(when, tz)\<close>: \<open>Inl\<close> is the reply sent when
  the text does not parse, \<open>Inr\<close> the value of \<^verbatim>\<open>when_utc_iso\<close>. The parser is the
  external \<^verbatim>\<open>dateparser\<close>, a parameter.
\<close>

definition create_when ::
  "(string \<Rightarrow> string \<Rightarrow> instant option) \<Rightarrow> create_request \<Rightarrow> database \<Rightarrow> response + instant option" where
  "create_when parse_human_time rq d =
     (case rq_when rq of
        None \<Rightarrow> Inr None
      | Some w \<Rightarrow>
          if w = [] then Inr None
          else (case parse_human_time w (user_timezone d (rq_user_id rq)) of
                  None \<Rightarrow> Inl CouldntParseTime
                | Some dt_utc \<Rightarrow> Inr (Some dt_utc)))"

text \<open>\<^verbatim>\<open>lead_list = []; if lead_minutes: try: ... except Exception: ... return\<close>.\<close>

definition create_lead_list :: "create_request \<Rightarrow> response + int list" where
  "create_lead_list rq =
     (case rq_lead_minutes rq of
        None \<Rightarrow> Inr []
      | Some s \<Rightarrow>
          if s = [] then Inr []
          else (case parse_lead_minutes s of Inl e \<Rightarrow> Inl BadLeadMinutes | Inr ms \<Rightarrow> Inr ms))"

text \<open>The row of the INSERT, with the id the table hands out.\<close>

definition new_event_row ::
  "instant \<Rightarrow> create_request \<Rightarrow> int \<Rightarrow> int \<Rightarrow> int \<Rightarrow> instant option \<Rightarrow> int list \<Rightarrow> event_row" where
  "new_event_row now rq ev guild channel when_utc lead_list =
     \<lparr>ev_id = ev, ev_guild_id = guild, ev_channel_id = channel, ev_title = rq_title rq,
      ev_when_utc = when_utc, ev_cron = rq_cron rq, ev_mention_role_id = rq_mention_role rq,
      ev_created_by = rq_user_id rq, ev_created_at = now,
      ev_lead_minutes = (if lead_list = [] then None else Some (join '','' (map str_int lead_list))),
      ev_message_id = None\<rparr>"

definition insert_event :: "event_row \<Rightarrow> database \<Rightarrow> database" where
  "insert_event row d = d\<lparr>events := events d @ [row], events_seq := ev_id row\<rparr>"

text \<open>
  The part of \<^verbatim>\<open>event_create\<close> after the INSERT has been committed. With an instant:
  the primary job (whatever the instant), the lead loop, the announcement, the reply.
  Without: the cron job inside \<^verbatim>\<open>try ... except Exception\<close>; \<^verbatim>\<open>None.split()\<close> would
  raise AttributeError into the same handler.
\<close>

definition create_schedule ::
  "(string \<Rightarrow> string \<Rightarrow> string \<Rightarrow> string \<Rightarrow> string \<Rightarrow> bool) \<Rightarrow> instant \<Rightarrow> int option \<Rightarrow> event_row
     \<Rightarrow> int list \<Rightarrow> database \<Rightarrow> job list \<Rightarrow> database \<times> job list \<times> outcome" where
  "create_schedule fields_ok now sent row lead_list d js =
     (case ev_when_utc row of
        Some run_dt \<Rightarrow>
          (case schedule_leads now (ev_id row) (ev_guild_id row) (ev_channel_id row) (ev_title row)
                  (ev_mention_role_id row) run_dt lead_list
                  (add_job (row_event_job row (DateTrigger run_dt)) js) of
             (js1, Some e) \<Rightarrow> (d, js1, Raised e)
           | (js1, None) \<Rightarrow>
               (case announce_event sent (ev_id row) d of
                  (d1, Some e) \<Rightarrow> (d1, js1, Raised e)
                | (d1, None) \<Rightarrow> (d1, js1, Reply EventCreatedAnnounced)))
      | None \<Rightarrow>
          (case ev_cron row of
             None \<Rightarrow> (d, js, Reply BadCronExpression)
           | Some cron_expr \<Rightarrow>
               (case cron_trigger fields_ok cron_expr of
                  Inl e \<Rightarrow> (d, js, Reply BadCronExpression)
                | Inr trg \<Rightarrow> (d, add_job (row_event_job row trg) js, Reply RecurringEventCreated))))"

text \<open>
  \<^verbatim>\<open>event_create\<close>. The checks before the INSERT return without touching the store. The
  column \<^verbatim>\<open>guild_id\<close> is NOT NULL, so a command from outside a guild fails in the INSERT.
\<close>

definition event_create ::
  "(string \<Rightarrow> string \<Rightarrow> instant option) \<Rightarrow> (string \<Rightarrow> string \<Rightarrow> string \<Rightarrow> string \<Rightarrow> string \<Rightarrow> bool)
     \<Rightarrow> instant \<Rightarrow> int option \<Rightarrow> create_request \<Rightarrow> database \<Rightarrow> job list
     \<Rightarrow> database \<times> job list \<times> outcome" where
  "event_create parse_human_time fields_ok now sent rq d js =
     (case (case rq_channel rq of None \<Rightarrow> rq_here rq | Some c \<Rightarrow> Some c) of
        None \<Rightarrow> (d, js, Reply PickTextChannel)
      | Some channel \<Rightarrow>
          if \<not> truthy (rq_when rq) \<and> \<not> truthy (rq_cron rq) then (d, js, Reply ProvideWhenOrCron)
          else
            (case create_when parse_human_time rq d of
               Inl reply \<Rightarrow> (d, js, Reply reply)
             | Inr when_utc \<Rightarrow>
                 (case create_lead_list rq of
                    Inl reply \<Rightarrow> (d, js, Reply reply)
                  | Inr lead_list \<Rightarrow>
                      (case rq_guild_id rq of
                         None \<Rightarrow> (d, js, Raised IntegrityError)
                       | Some guild \<Rightarrow>
                           (let row = new_event_row now rq
                                        (next_id (events_seq d) (map ev_id (events d)))
                                        guild channel when_utc lead_list
                            in create_schedule fields_ok now sent row lead_list
                                 (insert_event row d) js)))))"

section \<open>Deleting\<close>

text \<open>
  \<^verbatim>\<open>event_delete\<close>: the primary job is removed before the store is read; the lead jobs
  are removed for the offsets of the row found under the id and the invoking guild; the
  DELETE has the same condition, and the RSVP rows of a deleted event go with it
  (ON DELETE CASCADE). A NULL guild matches no row.
\<close>

definition event_matches :: "int \<Rightarrow> int option \<Rightarrow> event_row \<Rightarrow> bool" where
  "event_matches event_id guild r = (ev_id r = event_id \<and> Some (ev_guild_id r) = guild)"

definition remove_lead_jobs :: "int \<Rightarrow> event_row option \<Rightarrow> job list \<Rightarrow> job list" where
  "remove_lead_jobs event_id row js =
     (case row of
        None \<Rightarrow> js
      | Some r \<Rightarrow>
          (case ev_lead_minutes r of
             None \<Rightarrow> js
           | Some s \<Rightarrow>
               if s = [] then js
               else (case lead_set s of
                       Inl e \<Rightarrow> js
                     | Inr ms \<Rightarrow> fold (\<lambda>m. try_remove_job (lead_key event_id m)) ms js)))"

definition event_delete ::
  "int option \<Rightarrow> int \<Rightarrow> database \<Rightarrow> job list \<Rightarrow> database \<times> job list \<times> response" where
  "event_delete guild event_id d js =
     (let js1 = try_remove_job (event_key event_id) js;
          js2 = remove_lead_jobs event_id (find (event_matches event_id guild) (events d)) js1;
          deleted = filter (event_matches event_id guild) (events d);
          d' = d\<lparr>events := filter (\<lambda>r. \<not> event_matches event_id guild r) (events d),
                 event_rsvps := filter (\<lambda>v. rs_event_id v \<notin> set (map ev_id deleted)) (event_rsvps d)\<rparr>
      in (d', js2, if deleted = [] then EventNotFound else EventDeleted))"

definition reminder_matches :: "int \<Rightarrow> int \<Rightarrow> reminder_row \<Rightarrow> bool" where
  "reminder_matches reminder_id user r = (rm_id r = reminder_id \<and> rm_user_id r = Some user)"

definition remind_delete ::
  "int \<Rightarrow> int \<Rightarrow> database \<Rightarrow> job list \<Rightarrow> database \<times> job list \<times> response" where
  "remind_delete user reminder_id d js =
     (let js1 = try_remove_job (reminder_key reminder_id) js;
          deleted = filter (reminder_matches reminder_id user) (reminders d);
          d' = d\<lparr>reminders := filter (\<lambda>r. \<not> reminder_matches reminder_id user r) (reminders d)\<rparr>
      in (d', js1, if deleted = [] then ReminderNotFound else ReminderDeleted))"

section \<open>Firing a reminder\<close>

text \<open>
  What the chat platform does when asked: whether the guild and its text channel
  resolve, and whether \<^verbatim>\<open>channel.send\<close>, \<^verbatim>\<open>bot.fetch_user\<close> and \<^verbatim>\<open>user.send\<close>
  return (\<open>True\<close>) or raise (\<open>False\<close>).
\<close>

record discord =
  get_text_channel :: "int \<Rightarrow> int \<Rightarrow> bool"
  channel_send :: "int \<Rightarrow> bool"
  fetch_user :: "int \<Rightarrow> bool"
  user_send :: "int \<Rightarrow> bool"

datatype delivery =
    ToChannel int string "int option"
  | ToUser int string "int option"

definition delete_reminder :: "int \<Rightarrow> database \<Rightarrow> database" where
  "delete_reminder reminder_id d =
     d\<lparr>reminders := filter (\<lambda>r. rm_id r \<noteq> reminder_id) (reminders d)\<rparr>"

text \<open>
  \<^verbatim>\<open>send_reminder\<close>. No call of the platform is inside a \<^verbatim>\<open>try\<close>: when one raises,
  the coroutine ends there and the DELETE below it is not reached. A reminder whose
  guild or channel no longer resolves sends nothing and goes on to the DELETE.
\<close>

definition send_reminder ::
  "discord \<Rightarrow> int \<Rightarrow> database \<Rightarrow> database \<times> delivery list \<times> error option" where
  "send_reminder env reminder_id d =
     (case find (\<lambda>r. rm_id r = reminder_id) (reminders d) of
        None \<Rightarrow> (d, [], None)
      | Some row \<Rightarrow>
          (let mention = (if truthy_int (rm_mention_role_id row) then rm_mention_role_id row
                          else None)
           in if truthy_int (rm_channel_id row) then
                (case (rm_guild_id row, rm_channel_id row) of
                   (Some g, Some c) \<Rightarrow>
                     if g \<noteq> 0 \<and> get_text_channel env g c then
                       (if channel_send env c
                        then (delete_reminder reminder_id d, [ToChannel c (rm_message row) mention], None)
                        else (d, [], Some DeliveryError))
                     else (delete_reminder reminder_id d, [], None)
                 | _ \<Rightarrow> (delete_reminder reminder_id d, [], None))
              else
                (case rm_user_id row of
                   None \<Rightarrow> (d, [], Some DeliveryError)
                 | Some u \<Rightarrow>
                     if fetch_user env u then
                       (if user_send env u
                        then (delete_reminder reminder_id d, [ToUser u (rm_message row) mention], None)
                        else (d, [], Some DeliveryError))
                     else (d, [], Some DeliveryError))))"

section \<open>RSVP votes\<close>

text \<open>
  \<^verbatim>\<open>INSERT ... ON CONFLICT(event_id, user_id) DO UPDATE SET status, updated_at\<close>: the
  row of the pair is updated where it stands, a new pair is appended.
\<close>

fun upsert_rsvp :: "rsvp_row \<Rightarrow> rsvp_row list \<Rightarrow> rsvp_row list" where
  "upsert_rsvp v [] = [v]"
| "upsert_rsvp v (w # ws) =
     (if rs_event_id w = rs_event_id v \<and> rs_user_id w = rs_user_id v
      then w\<lparr>rs_status := rs_status v, rs_updated_at := rs_updated_at v\<rparr> # ws
      else w # upsert_rsvp v ws)"


record message =
  msg_id :: int
  msg_author :: int

datatype when_text = Recurring | Dated instant string

record embed =
  em_title :: string
  em_when :: when_text
  em_mention :: "int option"
  em_going :: "int list"
  em_maybe :: "int list"
  em_not :: "int list"

text \<open>
  \<^verbatim>\<open>update_announcement_message\<close> calls \<^verbatim>\<open>get_rsvp_counts\<close>, a name the module never
  binds (the function it defines is \<^verbatim>\<open>compute_rsvp_counts\<close>): the call raises NameError.
\<close>

definition get_rsvp_counts :: "int \<Rightarrow> database \<Rightarrow> error + (string \<Rightarrow> int list)" where
  "get_rsvp_counts event_id d = Inl NameError"

text \<open>
  \<^verbatim>\<open>update_announcement_message(event_id, message)\<close>. Both parameters are required; a
  call that leaves \<open>message\<close> out (\<open>None\<close> here) raises TypeError before the body
  runs. \<open>edit_ok\<close> says whether \<^verbatim>\<open>message.edit\<close> returns. The result lists the edits
  made, as the id of the edited message and the embed.
\<close>

definition update_announcement_message ::
  "bool \<Rightarrow> int \<Rightarrow> message option \<Rightarrow> database \<Rightarrow> (int \<times> embed) list \<times> error option" where
  "update_announcement_message edit_ok event_id msg d =
     (case msg of
        None \<Rightarrow> ([], Some TypeError)
      | Some m \<Rightarrow>
          (case find (\<lambda>r. ev_id r = event_id) (events d) of
             None \<Rightarrow> ([], None)
           | Some row \<Rightarrow>
               (case get_rsvp_counts event_id d of
                  Inl e \<Rightarrow> ([], Some e)
                | Inr counts \<Rightarrow>
                    if edit_ok then
                      ([(msg_id m,
                         \<lparr>em_title = ev_title row,
                          em_when = (case ev_when_utc row of
                                       None \<Rightarrow> Recurring
                                     | Some w \<Rightarrow> Dated w (user_timezone d (msg_author m))),
                          em_mention = (if truthy_int (ev_mention_role_id row)
                                        then ev_mention_role_id row else None),
                          em_going = counts ''going'', em_maybe = counts ''maybe'',
                          em_not = counts ''not''\<rparr>)], None)
                    else ([], Some DeliveryError))))"

text \<open>
  \<^verbatim>\<open>RSVPView._set_status\<close>. The connection has foreign keys switched on, so a vote for
  an event that is gone fails in the INSERT. After the commit the source calls
  \<^verbatim>\<open>update_announcement_message(self.event_id)\<close>, with one argument.
\<close>

definition set_status ::
  "bool \<Rightarrow> instant \<Rightarrow> int \<Rightarrow> int \<Rightarrow> string \<Rightarrow> database \<Rightarrow> database \<times> (int \<times> embed) list \<times> outcome" where
  "set_status edit_ok now event_id user status d =
     (if event_id \<notin> set (map ev_id (events d)) then (d, [], Raised IntegrityError)
      else
        (let d1 = d\<lparr>event_rsvps :=
                      upsert_rsvp \<lparr>rs_event_id = event_id, rs_user_id = user, rs_status = status,
                                   rs_updated_at = now\<rparr> (event_rsvps d)\<rparr>
         in (case update_announcement_message edit_ok event_id None d1 of
               (edits, Some e) \<Rightarrow> (d1, edits, Raised e)
             | (edits, None) \<Rightarrow> (d1, edits, Reply (RsvpUpdated status)))))"

section \<open>Notions of the statements\<close>


text \<open>The trigger of a row's cron column, when there is one and the library accepts it.\<close>

definition cron_of ::
  "(string \<Rightarrow> string \<Rightarrow> string \<Rightarrow> string \<Rightarrow> string \<Rightarrow> bool) \<Rightarrow> event_row \<Rightarrow> trigger option" where
  "cron_of fields_ok row =
     (case ev_cron row of
        None \<Rightarrow> None
      | Some c \<Rightarrow> (case cron_trigger fields_ok c of Inl e \<Rightarrow> None | Inr trg \<Rightarrow> Some trg))"


section \<open>Example inputs\<close>

text \<open>A request for a recurring event whose cron expression has four fields.\<close>

definition bad_cron_request :: create_request where
  "bad_cron_request =
     \<lparr>rq_guild_id = Some 7, rq_user_id = 42, rq_channel = None, rq_here = Some 9,
      rq_title = ''standup'', rq_when = None, rq_mention_role = None,
      rq_cron = Some ''* * * *'', rq_lead_minutes = None\<rparr>"

text \<open>A reminder to be sent by direct message, and a platform whose \<^verbatim>\<open>user.send\<close> raises.\<close>

definition dm_reminder :: reminder_row where
  "dm_reminder =
     \<lparr>rm_id = 1, rm_guild_id = None, rm_channel_id = None, rm_user_id = Some 42,
      rm_message = ''tea'', rm_when_utc = 500, rm_mention_role_id = None, rm_created_at = 0\<rparr>"

definition unreachable_user :: discord where
  "unreachable_user =
     \<lparr>get_text_channel = (\<lambda>g c. True), channel_send = (\<lambda>c. True),
      fetch_user = (\<lambda>u. True), user_send = (\<lambda>u. False)\<rparr>"

text \<open>An event that has been announced: its row holds the id of the posted message.\<close>

definition announced_event :: event_row where
  "announced_event =
     \<lparr>ev_id = 1, ev_guild_id = 7, ev_channel_id = 9, ev_title = ''party'',
      ev_when_utc = Some 5000, ev_cron = None, ev_mention_role_id = None, ev_created_by = 42,
      ev_created_at = 0, ev_lead_minutes = None, ev_message_id = Some 555\<rparr>"

text \<open>A store with one event of guild 7 and one reminder of user 42.\<close>

definition other_scope_db :: database where
  "other_scope_db = empty_db\<lparr>events := [announced_event], reminders := [dm_reminder]\<rparr>"

text \<open>A trigger library that accepts every five fields.\<close>

definition any_fields :: "string \<Rightarrow> string \<Rightarrow> string \<Rightarrow> string \<Rightarrow> string \<Rightarrow> bool" where
  "any_fields f_minute f_hour f_dom f_month f_dow = True"

text \<open>A store with one dated event, at instant 5000.\<close>

definition future_db :: database where
  "future_db = empty_db\<lparr>events := [announced_event]\<rparr>"

text \<open>
  A store with a row whose cron expression has four fields, a row with a well-formed
  one, and a reminder.
\<close>

definition bad_cron_event :: event_row where
  "bad_cron_event =
     \<lparr>ev_id = 1, ev_guild_id = 7, ev_channel_id = 9, ev_title = ''standup'',
      ev_when_utc = None, ev_cron = Some ''* * * *'', ev_mention_role_id = None,
      ev_created_by = 42, ev_created_at = 0, ev_lead_minutes = None, ev_message_id = None\<rparr>"

definition weekly_event :: event_row where
  "weekly_event =
     \<lparr>ev_id = 2, ev_guild_id = 7, ev_channel_id = 9, ev_title = ''review'',
      ev_when_utc = None, ev_cron = Some ''0 19 * * 2'', ev_mention_role_id = None,
      ev_created_by = 42, ev_created_at = 0, ev_lead_minutes = None, ev_message_id = None\<rparr>"

definition mixed_db :: database where
  "mixed_db = empty_db\<lparr>events := [bad_cron_event, weekly_event], reminders := [dm_reminder]\<rparr>"

text \<open>
  The scenario of the specification: an event one hour ahead (the clock reads 0, the
  parser answers 60 minutes later) with the lead offsets 60 and 10, and its row.
\<close>

definition hour_parser :: "string \<Rightarrow> string \<Rightarrow> instant option" where
  "hour_parser text tz = Some 3600000000"

definition lead_request :: create_request where
  "lead_request =
     \<lparr>rq_guild_id = Some 7, rq_user_id = 42, rq_channel = Some 9, rq_here = None,
      rq_title = ''party'', rq_when = Some ''in 60 minutes'', rq_mention_role = None,
      rq_cron = None, rq_lead_minutes = Some ''60,10''\<rparr>"

definition lead_event :: event_row where
  "lead_event =
     \<lparr>ev_id = 1, ev_guild_id = 7, ev_channel_id = 9, ev_title = ''party'',
      ev_when_utc = Some 3600000000, ev_cron = None, ev_mention_role_id = None,
      ev_created_by = 42, ev_created_at = 0, ev_lead_minutes = Some ''60,10'',
      ev_message_id = Some 555\<rparr>"

text \<open>The store after the creation of the scenario's event.\<close>

definition lead_db :: database where
  "lead_db = empty_db\<lparr>events := [lead_event], events_seq := 1\<rparr>"

text \<open>A request with both an instant and a cron expression, and the row it stores.\<close>

definition both_request :: create_request where
  "both_request =
     \<lparr>rq_guild_id = Some 7, rq_user_id = 42, rq_channel = Some 9, rq_here = None,
      rq_title = ''party'', rq_when = Some ''in 60 minutes'', rq_mention_role = None,
      rq_cron = Some ''0 19 * * 2'', rq_lead_minutes = None\<rparr>"

definition both_event :: event_row where
  "both_event =
     \<lparr>ev_id = 1, ev_guild_id = 7, ev_channel_id = 9, ev_title = ''party'',
      ev_when_utc = Some 3600000000, ev_cron = Some ''0 19 * * 2'', ev_mention_role_id = None,
      ev_created_by = 42, ev_created_at = 0, ev_lead_minutes = None,
      ev_message_id = Some 555\<rparr>"

definition both_db :: database where
  "both_db = empty_db\<lparr>events := [both_event], events_seq := 1\<rparr>"


text \<open>
  An event one hour ahead with the lead offsets 1100000000 and 10: 1100000000 minutes
  before the instant is before year 1. The row is as the INSERT leaves it, the
  announcement is never reached.
\<close>

definition overflow_request :: create_request where
  "overflow_request =
     \<lparr>rq_guild_id = Some 7, rq_user_id = 42, rq_channel = Some 9, rq_here = None,
      rq_title = ''party'', rq_when = Some ''in 60 minutes'', rq_mention_role = None,
      rq_cron = None, rq_lead_minutes = Some ''1100000000,10''\<rparr>"

definition overflow_event :: event_row where
  "overflow_event =
     \<lparr>ev_id = 1, ev_guild_id = 7, ev_channel_id = 9, ev_title = ''party'',
      ev_when_utc = Some 3600000000, ev_cron = None, ev_mention_role_id = None,
      ev_created_by = 42, ev_created_at = 0, ev_lead_minutes = Some ''1100000000,10'',
      ev_message_id = None\<rparr>"

definition overflow_db :: database where
  "overflow_db = empty_db\<lparr>events := [overflow_event], events_seq := 1\<rparr>"

text \<open>A second event one hour ahead, without lead offsets, created after that one.\<close>

definition later_request :: create_request where
  "later_request =
     \<lparr>rq_guild_id = Some 7, rq_user_id = 42, rq_channel = Some 9, rq_here = None,
      rq_title = ''review'', rq_when = Some ''in 60 minutes'', rq_mention_role = None,
      rq_cron = None, rq_lead_minutes = None\<rparr>"

definition later_event :: event_row where
  "later_event =
     \<lparr>ev_id = 2, ev_guild_id = 7, ev_channel_id = 9, ev_title = ''review'',
      ev_when_utc = Some 3600000000, ev_cron = None, ev_mention_role_id = None,
      ev_created_by = 42, ev_created_at = 0, ev_lead_minutes = None,
      ev_message_id = Some 556\<rparr>"

definition blocked_db :: database where
  "blocked_db = empty_db\<lparr>events := [overflow_event, later_event], events_seq := 2\<rparr>"

section \<open>Supporting lemmas\<close>

subsection \<open>Decimal printing is injective\<close>

lemma digit_val_digit_char: "d < 10 \<Longrightarrow> digit_val (digit_char d) = d"
  by (simp add: digit_val_def digit_char_def)

lemma is_digit_digit_char: "d < 10 \<Longrightarrow> is_digit (digit_char d)"
  by (simp add: is_digit_def digit_char_def)

lemma digits_all_digit: "c \<in> set (digits n) \<Longrightarrow> is_digit c"
proof (induction n rule: digits.induct)
  case (1 n)
  show ?case
  proof (cases "n < 10")
    case True
    with 1(2) show ?thesis by (simp add: digits.simps [of n] is_digit_digit_char)
  next
    case False
    with 1 show ?thesis by (auto simp add: digits.simps [of n] is_digit_digit_char)
  qed
qed

lemma digits_value_digits: "foldl (\<lambda>a c. 10 * a + digit_val c) 0 (digits n) = n"
proof (induction n rule: digits.induct)
  case (1 n)
  show ?case
  proof (cases "n < 10")
    case True
    then show ?thesis by (simp add: digits.simps [of n] digit_val_digit_char)
  next
    case False
    with 1 show ?thesis by (simp add: digits.simps [of n] digit_val_digit_char)
  qed
qed

lemma digits_inj: "digits a = digits b \<Longrightarrow> a = b"
proof -
  assume "digits a = digits b"
  then have "foldl (\<lambda>a c. 10 * a + digit_val c) 0 (digits a)
           = foldl (\<lambda>a c. 10 * a + digit_val c) 0 (digits b)" by simp
  then show ?thesis by (simp only: digits_value_digits)
qed

lemma minus_not_in_digits: "CHR ''-'' \<notin> set (digits n)"
proof
  assume "CHR ''-'' \<in> set (digits n)"
  then have "is_digit CHR ''-''" by (rule digits_all_digit)
  then show False by (simp add: is_digit_def)
qed

lemma colon_not_in_digits: "CHR '':'' \<notin> set (digits n)"
proof
  assume "CHR '':'' \<in> set (digits n)"
  then have "is_digit CHR '':''" by (rule digits_all_digit)
  then show False by (simp add: is_digit_def)
qed

lemma digits_not_minus: "digits n \<noteq> CHR ''-'' # s"
proof
  assume "digits n = CHR ''-'' # s"
  then have "CHR ''-'' \<in> set (digits n)" by simp
  with minus_not_in_digits show False by blast
qed

lemma str_int_inj: "str_int a = str_int b \<Longrightarrow> a = b"
proof -
  assume eq: "str_int a = str_int b"
  show ?thesis
  proof (cases "a < 0")
    case an: True
    show ?thesis
    proof (cases "b < 0")
      case True
      with an eq have "digits (nat (- a)) = digits (nat (- b))" by (simp add: str_int_def)
      then have "nat (- a) = nat (- b)" by (rule digits_inj)
      with an True show ?thesis by simp
    next
      case False
      with an eq have "digits (nat b) = CHR ''-'' # digits (nat (- a))" by (simp add: str_int_def)
      with digits_not_minus show ?thesis by blast
    qed
  next
    case ap: False
    show ?thesis
    proof (cases "b < 0")
      case True
      with ap eq have "digits (nat a) = CHR ''-'' # digits (nat (- b))" by (simp add: str_int_def)
      with digits_not_minus show ?thesis by blast
    next
      case False
      with ap eq have "digits (nat a) = digits (nat b)" by (simp add: str_int_def)
      then have "nat a = nat b" by (rule digits_inj)
      with ap False show ?thesis by simp
    qed
  qed
qed

lemma colon_not_in_str_int: "CHR '':'' \<notin> set (str_int i)"
  by (simp add: str_int_def colon_not_in_digits)

subsection \<open>Job ids do not collide\<close>

lemma takeWhile_no_colon:
  "CHR '':'' \<notin> set s \<Longrightarrow> takeWhile (\<lambda>c. c \<noteq> CHR '':'') (s @ CHR '':'' # t) = s"
  by (induction s) auto

lemma takeWhile_all_no_colon:
  "CHR '':'' \<notin> set s \<Longrightarrow> takeWhile (\<lambda>c. c \<noteq> CHR '':'') s = s"
  by (induction s) auto

lemma event_key_inj [simp]: "(event_key a = event_key b) = (a = b)"
  by (auto simp: event_key_def dest: str_int_inj)

lemma reminder_key_inj [simp]: "(reminder_key a = reminder_key b) = (a = b)"
  by (auto simp: reminder_key_def dest: str_int_inj)

lemma lead_key_inj [simp]: "(lead_key a m = lead_key b n) = (a = b \<and> m = n)"
proof
  assume "lead_key a m = lead_key b n"
  then have eq: "str_int a @ CHR '':'' # (''lead:'' @ str_int m)
               = str_int b @ CHR '':'' # (''lead:'' @ str_int n)"
    by (simp add: lead_key_def)
  have "takeWhile (\<lambda>c. c \<noteq> CHR '':'') (str_int a @ CHR '':'' # (''lead:'' @ str_int m)) = str_int a"
    by (rule takeWhile_no_colon) (rule colon_not_in_str_int)
  moreover
  have "takeWhile (\<lambda>c. c \<noteq> CHR '':'') (str_int b @ CHR '':'' # (''lead:'' @ str_int n)) = str_int b"
    by (rule takeWhile_no_colon) (rule colon_not_in_str_int)
  ultimately have ab: "str_int a = str_int b" using eq by simp
  then have "a = b" by (rule str_int_inj)
  moreover from eq ab have "str_int m = str_int n" by simp
  then have "m = n" by (rule str_int_inj)
  ultimately show "a = b \<and> m = n" by simp
next
  assume "a = b \<and> m = n"
  then show "lead_key a m = lead_key b n" by simp
qed

lemma event_key_neq_lead_key [simp]: "event_key a \<noteq> lead_key b m"
proof
  assume "event_key a = lead_key b m"
  then have eq: "str_int a = str_int b @ CHR '':'' # (''lead:'' @ str_int m)"
    by (simp add: event_key_def lead_key_def)
  then have "CHR '':'' \<in> set (str_int a)" by simp
  with colon_not_in_str_int show False by blast
qed

lemma lead_key_neq_event_key [simp]: "lead_key b m \<noteq> event_key a"
  using event_key_neq_lead_key [of a b m] by (rule not_sym)

lemma reminder_key_neq_event_key [simp]:
  "reminder_key a \<noteq> event_key b" "event_key b \<noteq> reminder_key a"
  by (simp_all add: reminder_key_def event_key_def)

lemma reminder_key_neq_lead_key [simp]:
  "reminder_key a \<noteq> lead_key b m" "lead_key b m \<noteq> reminder_key a"
  by (simp_all add: reminder_key_def lead_key_def)

subsection \<open>Adding and removing jobs\<close>

lemma job_ids_add_job: "set (job_ids (add_job j js)) = insert (job_id j) (set (job_ids js))"
  by (induction js) (auto simp: job_ids_def)

lemma distinct_add_job: "distinct (job_ids js) \<Longrightarrow> distinct (job_ids (add_job j js))"
proof (induction js)
  case Nil
  then show ?case by (simp add: job_ids_def)
next
  case (Cons k ks)
  have "set (job_ids (add_job j ks)) = insert (job_id j) (set (job_ids ks))"
    by (rule job_ids_add_job)
  with Cons show ?case by (auto simp: job_ids_def)
qed

lemma jobs_with_id_add_other:
  "k \<noteq> job_id j \<Longrightarrow> jobs_with_id k (add_job j js) = jobs_with_id k js"
  by (induction js) (auto simp: jobs_with_id_def)

lemma jobs_with_id_absent: "k \<notin> set (job_ids js) \<Longrightarrow> jobs_with_id k js = []"
  by (induction js) (auto simp: jobs_with_id_def job_ids_def)

lemma jobs_with_id_add_same:
  "distinct (job_ids js) \<Longrightarrow> jobs_with_id (job_id j) (add_job j js) = [j]"
proof (induction js)
  case Nil
  then show ?case by (simp add: jobs_with_id_def)
next
  case (Cons k ks)
  show ?case
  proof (cases "job_id k = job_id j")
    case True
    with Cons.prems have "job_id j \<notin> set (job_ids ks)" by (simp add: job_ids_def)
    then have "jobs_with_id (job_id j) ks = []" by (rule jobs_with_id_absent)
    with True show ?thesis by (simp add: jobs_with_id_def)
  next
    case False
    from Cons have "jobs_with_id (job_id j) (add_job j ks) = [j]" by (simp add: job_ids_def)
    with False show ?thesis by (simp add: jobs_with_id_def)
  qed
qed

lemma jobs_with_id_member: "(k \<in> set (job_ids js)) = (jobs_with_id k js \<noteq> [])"
  by (induction js) (auto simp: jobs_with_id_def job_ids_def)

lemma jobs_with_id_distinct_one:
  "distinct (job_ids js) \<Longrightarrow> k \<in> set (job_ids js) \<Longrightarrow> length (jobs_with_id k js) = 1"
proof (induction js)
  case Nil
  then show ?case by (simp add: job_ids_def)
next
  case (Cons j js)
  show ?case
  proof (cases "job_id j = k")
    case True
    with Cons.prems have "k \<notin> set (job_ids js)" by (auto simp: job_ids_def)
    then have "jobs_with_id k js = []" by (rule jobs_with_id_absent)
    with True show ?thesis by (simp add: jobs_with_id_def)
  next
    case False
    with Cons show ?thesis by (auto simp: jobs_with_id_def job_ids_def)
  qed
qed

lemma job_ids_try_remove: "set (job_ids (try_remove_job i js)) = set (job_ids js) - {i}"
  by (auto simp: try_remove_job_def remove_job_def job_ids_def)

lemma distinct_try_remove: "distinct (job_ids js) \<Longrightarrow> distinct (job_ids (try_remove_job i js))"
  by (auto simp: try_remove_job_def remove_job_def job_ids_def distinct_map_filter)

subsection \<open>The lead loop\<close>

lemma minus_minutes_Inr: "minus_minutes dt m = Inr x \<Longrightarrow> x = dt - m * 60000000"
  by (simp add: minus_minutes_def Let_def split: if_splits)

lemma job_id_lead_job [simp]: "job_id (lead_job ev m lead_dt g c t r) = lead_key ev m"
  by (simp add: lead_job_def)

lemma job_id_event_job [simp]: "job_id (event_job ev trg g c t r) = event_key ev"
  by (simp add: event_job_def)

lemma job_id_reminder_job [simp]: "job_id (reminder_job rid w) = reminder_key rid"
  by (simp add: reminder_job_def)

lemma job_id_row_event_job [simp]: "job_id (row_event_job row trg) = event_key (ev_id row)"
  by (simp add: row_event_job_def)

lemma leads_distinct:
  "schedule_leads now ev g c t r run_dt ms js = (js', err) \<Longrightarrow> distinct (job_ids js)
     \<Longrightarrow> distinct (job_ids js')"
proof (induction ms arbitrary: js)
  case Nil
  then show ?case by simp
next
  case (Cons m ms)
  show ?case
  proof (cases "minus_minutes run_dt m")
    case (Inl e)
    with Cons.prems show ?thesis by simp
  next
    case (Inr lead_dt)
    let ?js1 = "if now < lead_dt then add_job (lead_job ev m lead_dt g c t r) js else js"
    from Cons.prems(1) Inr have run: "schedule_leads now ev g c t r run_dt ms ?js1 = (js', err)"
      by simp
    from Cons.prems(2) have "distinct (job_ids ?js1)" by (simp add: distinct_add_job)
    with run show ?thesis by (rule Cons.IH)
  qed
qed

lemma leads_frame:
  "schedule_leads now ev g c t r run_dt ms js = (js', err) \<Longrightarrow> \<forall>m \<in> set ms. k \<noteq> lead_key ev m
     \<Longrightarrow> jobs_with_id k js' = jobs_with_id k js"
proof (induction ms arbitrary: js)
  case Nil
  then show ?case by simp
next
  case (Cons m ms)
  show ?case
  proof (cases "minus_minutes run_dt m")
    case (Inl e)
    with Cons.prems show ?thesis by simp
  next
    case (Inr lead_dt)
    let ?js1 = "if now < lead_dt then add_job (lead_job ev m lead_dt g c t r) js else js"
    from Cons.prems(1) Inr have run: "schedule_leads now ev g c t r run_dt ms ?js1 = (js', err)"
      by simp
    from Cons.prems(2) have rest: "\<forall>m \<in> set ms. k \<noteq> lead_key ev m" by simp
    from run rest have "jobs_with_id k js' = jobs_with_id k ?js1" by (rule Cons.IH)
    moreover from Cons.prems(2) have "jobs_with_id k ?js1 = jobs_with_id k js"
      by (simp add: jobs_with_id_add_other)
    ultimately show ?thesis by simp
  qed
qed

lemma leads_job:
  "schedule_leads now ev g c t r run_dt ms js = (js', None) \<Longrightarrow> distinct (job_ids js)
     \<Longrightarrow> jobs_with_id (lead_key ev m) js' =
           (if m \<in> set ms \<and> now < run_dt - m * 60000000
            then [lead_job ev m (run_dt - m * 60000000) g c t r]
            else jobs_with_id (lead_key ev m) js)"
proof (induction ms arbitrary: js)
  case Nil
  then show ?case by simp
next
  case (Cons m0 ms)
  show ?case
  proof (cases "minus_minutes run_dt m0")
    case (Inl e)
    with Cons.prems show ?thesis by simp
  next
    case (Inr lead_dt)
    then have lead: "lead_dt = run_dt - m0 * 60000000" by (rule minus_minutes_Inr)
    let ?j = "lead_job ev m0 lead_dt g c t r"
    let ?js1 = "if now < lead_dt then add_job ?j js else js"
    from Cons.prems(1) Inr have run: "schedule_leads now ev g c t r run_dt ms ?js1 = (js', None)"
      by simp
    from Cons.prems(2) have d1: "distinct (job_ids ?js1)" by (simp add: distinct_add_job)
    from run d1 have ih: "jobs_with_id (lead_key ev m) js' =
           (if m \<in> set ms \<and> now < run_dt - m * 60000000
            then [lead_job ev m (run_dt - m * 60000000) g c t r]
            else jobs_with_id (lead_key ev m) ?js1)" by (rule Cons.IH)
    have step: "jobs_with_id (lead_key ev m) ?js1 =
           (if m = m0 \<and> now < lead_dt then [?j] else jobs_with_id (lead_key ev m) js)"
    proof (cases "m = m0 \<and> now < lead_dt")
      case True
      from Cons.prems(2) have "jobs_with_id (job_id ?j) (add_job ?j js) = [?j]"
        by (rule jobs_with_id_add_same)
      with True show ?thesis by simp
    next
      case False
      then show ?thesis by (auto simp: jobs_with_id_add_other)
    qed
    from ih step lead show ?thesis by auto
  qed
qed

lemma leads_ids_mono:
  "schedule_leads now ev g c t r run_dt ms js = (js', err) \<Longrightarrow> set (job_ids js) \<subseteq> set (job_ids js')"
proof (induction ms arbitrary: js)
  case Nil
  then show ?case by simp
next
  case (Cons m ms)
  show ?case
  proof (cases "minus_minutes run_dt m")
    case (Inl e)
    with Cons.prems show ?thesis by simp
  next
    case (Inr lead_dt)
    let ?js1 = "if now < lead_dt then add_job (lead_job ev m lead_dt g c t r) js else js"
    from Cons.prems(1) Inr have run: "schedule_leads now ev g c t r run_dt ms ?js1 = (js', err)"
      by simp
    then have "set (job_ids ?js1) \<subseteq> set (job_ids js')" by (rule Cons.IH)
    moreover have "set (job_ids js) \<subseteq> set (job_ids ?js1)" by (auto simp: job_ids_add_job)
    ultimately show ?thesis by blast
  qed
qed

subsection \<open>The loop over the dated rows\<close>

lemma dated_event_distinct:
  "schedule_dated_event now row t js = (js', err) \<Longrightarrow> distinct (job_ids js)
     \<Longrightarrow> distinct (job_ids js')"
  unfolding schedule_dated_event_def
  by (erule leads_distinct) (simp add: distinct_add_job)

lemma dated_event_frame:
  assumes "schedule_dated_event now row t js = (js', err)"
    and "k \<noteq> event_key (ev_id row)" and "\<forall>m. k \<noteq> lead_key (ev_id row) m"
  shows "jobs_with_id k js' = jobs_with_id k js"
proof -
  let ?js1 = "if now < t then add_job (row_event_job row (DateTrigger t)) js else js"
  from assms(3) have "\<forall>m \<in> set (stored_lead_offsets (ev_lead_minutes row)). k \<noteq> lead_key (ev_id row) m"
    by simp
  with assms(1) [unfolded schedule_dated_event_def]
  have "jobs_with_id k js' = jobs_with_id k ?js1" by (rule leads_frame)
  moreover from assms(2) have "jobs_with_id k ?js1 = jobs_with_id k js"
    by (simp add: jobs_with_id_add_other)
  ultimately show ?thesis by simp
qed

lemma dated_event_primary:
  assumes "schedule_dated_event now row t js = (js', err)" and "distinct (job_ids js)"
  shows "jobs_with_id (event_key (ev_id row)) js' =
           (if now < t then [row_event_job row (DateTrigger t)]
            else jobs_with_id (event_key (ev_id row)) js)"
proof -
  let ?j = "row_event_job row (DateTrigger t)"
  let ?js1 = "if now < t then add_job ?j js else js"
  from assms(1) have "jobs_with_id (event_key (ev_id row)) js' = jobs_with_id (event_key (ev_id row)) ?js1"
    unfolding schedule_dated_event_def by (rule leads_frame) simp
  moreover from assms(2) have "jobs_with_id (job_id ?j) (add_job ?j js) = [?j]"
    by (rule jobs_with_id_add_same)
  ultimately show ?thesis by simp
qed

lemma dated_event_lead:
  assumes "schedule_dated_event now row t js = (js', None)" and "distinct (job_ids js)"
  shows "jobs_with_id (lead_key (ev_id row) m) js' =
           (if m \<in> set (stored_lead_offsets (ev_lead_minutes row)) \<and> now < t - m * 60000000
            then [row_lead_job row m (t - m * 60000000)]
            else jobs_with_id (lead_key (ev_id row) m) js)"
proof -
  let ?js1 = "if now < t then add_job (row_event_job row (DateTrigger t)) js else js"
  from assms(2) have d1: "distinct (job_ids ?js1)" by (simp add: distinct_add_job)
  have "jobs_with_id (lead_key (ev_id row) m) ?js1 = jobs_with_id (lead_key (ev_id row) m) js"
    by (simp add: jobs_with_id_add_other)
  with leads_job [OF assms(1) [unfolded schedule_dated_event_def] d1, of m]
  show ?thesis by (simp add: row_lead_job_def)
qed

lemma dated_distinct:
  "schedule_dated_events now rows js = (js', err) \<Longrightarrow> distinct (job_ids js)
     \<Longrightarrow> distinct (job_ids js')"
proof (induction rows arbitrary: js)
  case Nil
  then show ?case by simp
next
  case (Cons row rows)
  show ?case
  proof (cases "ev_when_utc row")
    case None
    with Cons show ?thesis by simp
  next
    case (Some t)
    obtain js1 e1 where one: "schedule_dated_event now row t js = (js1, e1)" by fastforce
    from one Cons.prems(2) have d1: "distinct (job_ids js1)" by (rule dated_event_distinct)
    show ?thesis
    proof (cases e1)
      case None
      with Cons.prems(1) Some one have "schedule_dated_events now rows js1 = (js', err)" by simp
      then show ?thesis using d1 by (rule Cons.IH)
    next
      case (Some e)
      with Cons.prems(1) \<open>ev_when_utc row = Some t\<close> one have "js' = js1" by simp
      with d1 show ?thesis by simp
    qed
  qed
qed

lemma dated_frame:
  "schedule_dated_events now rows js = (js', err)
     \<Longrightarrow> \<forall>row \<in> set rows. k \<noteq> event_key (ev_id row) \<and> (\<forall>m. k \<noteq> lead_key (ev_id row) m)
     \<Longrightarrow> jobs_with_id k js' = jobs_with_id k js"
proof (induction rows arbitrary: js)
  case Nil
  then show ?case by simp
next
  case (Cons row rows)
  from Cons.prems(2) have rest:
    "\<forall>row \<in> set rows. k \<noteq> event_key (ev_id row) \<and> (\<forall>m. k \<noteq> lead_key (ev_id row) m)"
    by simp
  show ?case
  proof (cases "ev_when_utc row")
    case None
    with Cons.prems(1) have "schedule_dated_events now rows js = (js', err)" by simp
    then show ?thesis using rest by (rule Cons.IH)
  next
    case (Some t)
    obtain js1 e1 where one: "schedule_dated_event now row t js = (js1, e1)" by fastforce
    from Cons.prems(2) have "k \<noteq> event_key (ev_id row)" and "\<forall>m. k \<noteq> lead_key (ev_id row) m"
      by simp_all
    with one have f1: "jobs_with_id k js1 = jobs_with_id k js" by (rule dated_event_frame)
    show ?thesis
    proof (cases e1)
      case None
      with Cons.prems(1) Some one have "schedule_dated_events now rows js1 = (js', err)" by simp
      then have "jobs_with_id k js' = jobs_with_id k js1" using rest by (rule Cons.IH)
      with f1 show ?thesis by simp
    next
      case (Some e)
      with Cons.prems(1) \<open>ev_when_utc row = Some t\<close> one have "js' = js1" by simp
      with f1 show ?thesis by simp
    qed
  qed
qed

lemma dated_primary:
  "schedule_dated_events now rows js = (js', None) \<Longrightarrow> distinct (job_ids js)
     \<Longrightarrow> distinct (map ev_id rows) \<Longrightarrow> row \<in> set rows
     \<Longrightarrow> jobs_with_id (event_key (ev_id row)) js' =
           (case ev_when_utc row of
              None \<Rightarrow> jobs_with_id (event_key (ev_id row)) js
            | Some t \<Rightarrow> if now < t then [row_event_job row (DateTrigger t)]
                        else jobs_with_id (event_key (ev_id row)) js)"
proof (induction rows arbitrary: js)
  case Nil
  then show ?case by simp
next
  case (Cons r rows)
  let ?k = "event_key (ev_id row)"
  from Cons.prems(3) have drest: "distinct (map ev_id rows)" and fresh: "ev_id r \<notin> ev_id ` set rows"
    by simp_all
  have frame_rest: "jobs_with_id (event_key (ev_id r)) js2 = jobs_with_id (event_key (ev_id r)) js1"
    if "schedule_dated_events now rows js1 = (js2, e)" for js1 js2 e
    using that
  proof (rule dated_frame)
    show "\<forall>row\<in>set rows. event_key (ev_id r) \<noteq> event_key (ev_id row) \<and>
            (\<forall>m. event_key (ev_id r) \<noteq> lead_key (ev_id row) m)"
      using fresh by auto
  qed
  show ?case
  proof (cases "ev_when_utc r")
    case None
    with Cons.prems(1) have run: "schedule_dated_events now rows js = (js', None)" by simp
    show ?thesis
    proof (cases "row = r")
      case True
      with None frame_rest [OF run] show ?thesis by simp
    next
      case False
      with Cons.prems(4) have "row \<in> set rows" by simp
      with run Cons.prems(2) drest show ?thesis by (rule Cons.IH)
    qed
  next
    case (Some t)
    obtain js1 e1 where one: "schedule_dated_event now r t js = (js1, e1)" by fastforce
    with Cons.prems(1) Some have e1: "e1 = None" by (cases e1) auto
    with Cons.prems(1) Some one have run: "schedule_dated_events now rows js1 = (js', None)" by simp
    from one Cons.prems(2) have d1: "distinct (job_ids js1)" by (rule dated_event_distinct)
    show ?thesis
    proof (cases "row = r")
      case True
      from one Cons.prems(2) have "jobs_with_id (event_key (ev_id r)) js1 =
           (if now < t then [row_event_job r (DateTrigger t)]
            else jobs_with_id (event_key (ev_id r)) js)" by (rule dated_event_primary)
      with True Some frame_rest [OF run] show ?thesis by simp
    next
      case False
      with Cons.prems(4) have mem: "row \<in> set rows" by simp
      with fresh have ne: "ev_id row \<noteq> ev_id r" by (metis image_eqI)
      from run d1 drest mem have ih: "jobs_with_id ?k js' =
           (case ev_when_utc row of
              None \<Rightarrow> jobs_with_id ?k js1
            | Some t \<Rightarrow> if now < t then [row_event_job row (DateTrigger t)]
                        else jobs_with_id ?k js1)" by (rule Cons.IH)
      from one have "jobs_with_id ?k js1 = jobs_with_id ?k js"
        by (rule dated_event_frame) (use ne in simp_all)
      with ih show ?thesis by (cases "ev_when_utc row") simp_all
    qed
  qed
qed

lemma dated_lead:
  "schedule_dated_events now rows js = (js', None) \<Longrightarrow> distinct (job_ids js)
     \<Longrightarrow> distinct (map ev_id rows) \<Longrightarrow> row \<in> set rows
     \<Longrightarrow> jobs_with_id (lead_key (ev_id row) m) js' =
           (case ev_when_utc row of
              None \<Rightarrow> jobs_with_id (lead_key (ev_id row) m) js
            | Some t \<Rightarrow>
                if m \<in> set (stored_lead_offsets (ev_lead_minutes row)) \<and> now < t - m * 60000000
                then [row_lead_job row m (t - m * 60000000)]
                else jobs_with_id (lead_key (ev_id row) m) js)"
proof (induction rows arbitrary: js)
  case Nil
  then show ?case by simp
next
  case (Cons r rows)
  let ?k = "lead_key (ev_id row) m"
  from Cons.prems(3) have drest: "distinct (map ev_id rows)" and fresh: "ev_id r \<notin> ev_id ` set rows"
    by simp_all
  have frame_rest: "jobs_with_id (lead_key (ev_id r) m) js2 = jobs_with_id (lead_key (ev_id r) m) js1"
    if "schedule_dated_events now rows js1 = (js2, e)" for js1 js2 e
    using that
  proof (rule dated_frame)
    show "\<forall>row\<in>set rows. lead_key (ev_id r) m \<noteq> event_key (ev_id row) \<and>
            (\<forall>ma. lead_key (ev_id r) m \<noteq> lead_key (ev_id row) ma)"
      using fresh by auto
  qed
  show ?case
  proof (cases "ev_when_utc r")
    case None
    with Cons.prems(1) have run: "schedule_dated_events now rows js = (js', None)" by simp
    show ?thesis
    proof (cases "row = r")
      case True
      with None frame_rest [OF run] show ?thesis by simp
    next
      case False
      with Cons.prems(4) have "row \<in> set rows" by simp
      with run Cons.prems(2) drest show ?thesis by (rule Cons.IH)
    qed
  next
    case (Some t)
    obtain js1 e1 where one: "schedule_dated_event now r t js = (js1, e1)" by fastforce
    with Cons.prems(1) Some have e1: "e1 = None" by (cases e1) auto
    with Cons.prems(1) Some one have run: "schedule_dated_events now rows js1 = (js', None)" by simp
    from one Cons.prems(2) have d1: "distinct (job_ids js1)" by (rule dated_event_distinct)
    show ?thesis
    proof (cases "row = r")
      case True
      from one [unfolded e1] Cons.prems(2) have "jobs_with_id (lead_key (ev_id r) m) js1 =
           (if m \<in> set (stored_lead_offsets (ev_lead_minutes r)) \<and> now < t - m * 60000000
            then [row_lead_job r m (t - m * 60000000)]
            else jobs_with_id (lead_key (ev_id r) m) js)" by (rule dated_event_lead)
      with True Some frame_rest [OF run] show ?thesis by simp
    next
      case False
      with Cons.prems(4) have mem: "row \<in> set rows" by simp
      with fresh have ne: "ev_id row \<noteq> ev_id r" by (metis image_eqI)
      from run d1 drest mem have ih: "jobs_with_id ?k js' =
           (case ev_when_utc row of
              None \<Rightarrow> jobs_with_id ?k js1
            | Some t \<Rightarrow>
                if m \<in> set (stored_lead_offsets (ev_lead_minutes row)) \<and> now < t - m * 60000000
                then [row_lead_job row m (t - m * 60000000)]
                else jobs_with_id ?k js1)" by (rule Cons.IH)
      from one have "jobs_with_id ?k js1 = jobs_with_id ?k js"
        by (rule dated_event_frame) (use ne in simp_all)
      with ih show ?thesis by (cases "ev_when_utc row") simp_all
    qed
  qed
qed

subsection \<open>The loops over the cron rows and the reminders\<close>

lemma cron_distinct:
  "schedule_cron_events f rows js lg = (js', lg') \<Longrightarrow> distinct (job_ids js)
     \<Longrightarrow> distinct (job_ids js')"
proof (induction rows arbitrary: js lg)
  case Nil
  then show ?case by simp
next
  case (Cons row rows)
  show ?case
  proof (cases "ev_cron row")
    case None
    with Cons show ?thesis by simp
  next
    case (Some c)
    show ?thesis
    proof (cases "cron_trigger f c")
      case (Inl e)
      with Cons Some show ?thesis by simp
    next
      case (Inr trg)
      with Cons.prems(1) Some
      have "schedule_cron_events f rows (add_job (row_event_job row trg) js) lg = (js', lg')"
        by simp
      moreover from Cons.prems(2) have "distinct (job_ids (add_job (row_event_job row trg) js))"
        by (rule distinct_add_job)
      ultimately show ?thesis by (rule Cons.IH)
    qed
  qed
qed

lemma cron_frame:
  "schedule_cron_events f rows js lg = (js', lg') \<Longrightarrow> \<forall>row \<in> set rows. k \<noteq> event_key (ev_id row)
     \<Longrightarrow> jobs_with_id k js' = jobs_with_id k js"
proof (induction rows arbitrary: js lg)
  case Nil
  then show ?case by simp
next
  case (Cons row rows)
  from Cons.prems(2) have rest: "\<forall>row \<in> set rows. k \<noteq> event_key (ev_id row)"
    and here: "k \<noteq> event_key (ev_id row)" by simp_all
  show ?case
  proof (cases "ev_cron row")
    case None
    with Cons.prems(1) have "schedule_cron_events f rows js lg = (js', lg')" by simp
    then show ?thesis using rest by (rule Cons.IH)
  next
    case (Some c)
    show ?thesis
    proof (cases "cron_trigger f c")
      case (Inl e)
      with Cons.prems(1) Some
      have "schedule_cron_events f rows js (lg @ [BadCron (ev_id row) e]) = (js', lg')" by simp
      then show ?thesis using rest by (rule Cons.IH)
    next
      case (Inr trg)
      with Cons.prems(1) Some
      have "schedule_cron_events f rows (add_job (row_event_job row trg) js) lg = (js', lg')"
        by simp
      then have "jobs_with_id k js' = jobs_with_id k (add_job (row_event_job row trg) js)"
        using rest by (rule Cons.IH)
      with here show ?thesis by (simp add: jobs_with_id_add_other)
    qed
  qed
qed

lemma cron_job:
  "schedule_cron_events f rows js lg = (js', lg') \<Longrightarrow> distinct (job_ids js)
     \<Longrightarrow> distinct (map ev_id rows) \<Longrightarrow> row \<in> set rows
     \<Longrightarrow> jobs_with_id (event_key (ev_id row)) js' =
           (case ev_cron row of
              None \<Rightarrow> jobs_with_id (event_key (ev_id row)) js
            | Some c \<Rightarrow>
                (case cron_trigger f c of
                   Inl e \<Rightarrow> jobs_with_id (event_key (ev_id row)) js
                 | Inr trg \<Rightarrow> [row_event_job row trg]))"
proof (induction rows arbitrary: js lg)
  case Nil
  then show ?case by simp
next
  case (Cons r rows)
  let ?k = "event_key (ev_id row)"
  from Cons.prems(3) have drest: "distinct (map ev_id rows)" and fresh: "ev_id r \<notin> ev_id ` set rows"
    by simp_all
  have frame_rest: "jobs_with_id (event_key (ev_id r)) js2 = jobs_with_id (event_key (ev_id r)) js1"
    if "schedule_cron_events f rows js1 lg1 = (js2, lg2)" for js1 js2 lg1 lg2
    using that
  proof (rule cron_frame)
    show "\<forall>row\<in>set rows. event_key (ev_id r) \<noteq> event_key (ev_id row)"
      using fresh by auto
  qed
  obtain js1 lg1 where step: "schedule_cron_events f (r # rows) js lg = schedule_cron_events f rows js1 lg1"
    and d1: "distinct (job_ids js1)"
    and here: "jobs_with_id (event_key (ev_id r)) js1 =
           (case ev_cron r of
              None \<Rightarrow> jobs_with_id (event_key (ev_id r)) js
            | Some c \<Rightarrow>
                (case cron_trigger f c of
                   Inl e \<Rightarrow> jobs_with_id (event_key (ev_id r)) js
                 | Inr trg \<Rightarrow> [row_event_job r trg]))"
    and other: "\<And>k. k \<noteq> event_key (ev_id r) \<Longrightarrow> jobs_with_id k js1 = jobs_with_id k js"
  proof (cases "ev_cron r")
    case None
    with Cons.prems(2) that [of js lg] show ?thesis by simp
  next
    case (Some c)
    show ?thesis
    proof (cases "cron_trigger f c")
      case (Inl e)
      with Some Cons.prems(2) that [of js "lg @ [BadCron (ev_id r) e]"] show ?thesis by simp
    next
      case (Inr trg)
      let ?j = "row_event_job r trg"
      from Cons.prems(2) have "jobs_with_id (job_id ?j) (add_job ?j js) = [?j]"
        by (rule jobs_with_id_add_same)
      with Some Inr Cons.prems(2) that [of "add_job ?j js" lg] show ?thesis
        by (simp add: distinct_add_job jobs_with_id_add_other)
    qed
  qed
  from Cons.prems(1) step have run: "schedule_cron_events f rows js1 lg1 = (js', lg')" by simp
  show ?case
  proof (cases "row = r")
    case True
    from here frame_rest [OF run] show ?thesis unfolding True by simp
  next
    case False
    with Cons.prems(4) have mem: "row \<in> set rows" by simp
    with fresh have ne: "ev_id row \<noteq> ev_id r" by (metis image_eqI)
    from run d1 drest mem have ih: "jobs_with_id ?k js' =
           (case ev_cron row of
              None \<Rightarrow> jobs_with_id ?k js1
            | Some c \<Rightarrow>
                (case cron_trigger f c of
                   Inl e \<Rightarrow> jobs_with_id ?k js1
                 | Inr trg \<Rightarrow> [row_event_job row trg]))" by (rule Cons.IH)
    from ne have "jobs_with_id ?k js1 = jobs_with_id ?k js" by (intro other) simp
    with ih show ?thesis by (simp split: option.split sum.split)
  qed
qed

lemma cron_log:
  "schedule_cron_events f rows js lg = (js', lg')
     \<Longrightarrow> set lg' = set lg \<union>
           {BadCron (ev_id row) e | row e c.
              row \<in> set rows \<and> ev_cron row = Some c \<and> cron_trigger f c = Inl e}"
proof (induction rows arbitrary: js lg)
  case Nil
  then show ?case by simp
next
  case (Cons r rows)
  show ?case
  proof (cases "ev_cron r")
    case None
    with Cons.prems have "schedule_cron_events f rows js lg = (js', lg')" by simp
    then have "set lg' = set lg \<union>
           {BadCron (ev_id row) e | row e c.
              row \<in> set rows \<and> ev_cron row = Some c \<and> cron_trigger f c = Inl e}"
      by (rule Cons.IH)
    with None show ?thesis by auto
  next
    case (Some c)
    show ?thesis
    proof (cases "cron_trigger f c")
      case (Inl e)
      with Cons.prems Some
      have "schedule_cron_events f rows js (lg @ [BadCron (ev_id r) e]) = (js', lg')" by simp
      then have "set lg' = set (lg @ [BadCron (ev_id r) e]) \<union>
           {BadCron (ev_id row) e | row e c.
              row \<in> set rows \<and> ev_cron row = Some c \<and> cron_trigger f c = Inl e}"
        by (rule Cons.IH)
      with Some Inl show ?thesis by auto
    next
      case (Inr trg)
      with Cons.prems Some
      have "schedule_cron_events f rows (add_job (row_event_job r trg) js) lg = (js', lg')"
        by simp
      then have "set lg' = set lg \<union>
           {BadCron (ev_id row) e | row e c.
              row \<in> set rows \<and> ev_cron row = Some c \<and> cron_trigger f c = Inl e}"
        by (rule Cons.IH)
      with Some Inr show ?thesis by auto
    qed
  qed
qed

lemma reminders_distinct:
  "distinct (job_ids js) \<Longrightarrow> distinct (job_ids (schedule_reminders now rows js))"
  by (induction rows arbitrary: js) (simp_all add: distinct_add_job)

lemma reminders_frame:
  "\<forall>row \<in> set rows. k \<noteq> reminder_key (rm_id row)
     \<Longrightarrow> jobs_with_id k (schedule_reminders now rows js) = jobs_with_id k js"
  by (induction rows arbitrary: js) (simp_all add: jobs_with_id_add_other)

lemma reminders_job:
  "distinct (job_ids js) \<Longrightarrow> distinct (map rm_id rows) \<Longrightarrow> row \<in> set rows
     \<Longrightarrow> jobs_with_id (reminder_key (rm_id row)) (schedule_reminders now rows js) =
           (if now < rm_when_utc row then [reminder_job (rm_id row) (rm_when_utc row)]
            else jobs_with_id (reminder_key (rm_id row)) js)"
proof (induction rows arbitrary: js)
  case Nil
  then show ?case by simp
next
  case (Cons r rows)
  let ?j = "reminder_job (rm_id r) (rm_when_utc r)"
  let ?js1 = "if now < rm_when_utc r then add_job ?j js else js"
  from Cons.prems(2) have drest: "distinct (map rm_id rows)" and fresh: "rm_id r \<notin> rm_id ` set rows"
    by simp_all
  from Cons.prems(1) have d1: "distinct (job_ids ?js1)" by (simp add: distinct_add_job)
  show ?case
  proof (cases "row = r")
    case True
    from fresh have "\<forall>row \<in> set rows. reminder_key (rm_id r) \<noteq> reminder_key (rm_id row)"
      by auto
    then have "jobs_with_id (reminder_key (rm_id r)) (schedule_reminders now rows ?js1)
             = jobs_with_id (reminder_key (rm_id r)) ?js1" by (rule reminders_frame)
    moreover from Cons.prems(1) have "jobs_with_id (job_id ?j) (add_job ?j js) = [?j]"
      by (rule jobs_with_id_add_same)
    ultimately show ?thesis using True by simp
  next
    case False
    with Cons.prems(3) have mem: "row \<in> set rows" by simp
    with fresh have ne: "rm_id row \<noteq> rm_id r" by (metis image_eqI)
    from d1 drest mem have "jobs_with_id (reminder_key (rm_id row)) (schedule_reminders now rows ?js1) =
           (if now < rm_when_utc row then [reminder_job (rm_id row) (rm_when_utc row)]
            else jobs_with_id (reminder_key (rm_id row)) ?js1)" by (rule Cons.IH)
    moreover from ne have "jobs_with_id (reminder_key (rm_id row)) ?js1
         = jobs_with_id (reminder_key (rm_id row)) js" by (simp add: jobs_with_id_add_other)
    ultimately show ?thesis by simp
  qed
qed

subsection \<open>The primary key of the events table\<close>

lemma fold_max_ge: "seq \<le> fold max ids (seq::int)"
  by (induction ids arbitrary: seq) (auto intro: order_trans [OF max.cobounded2])

lemma fold_max_member: "x \<in> set ids \<Longrightarrow> x \<le> fold max ids (seq::int)"
proof (induction ids arbitrary: seq)
  case Nil
  then show ?case by simp
next
  case (Cons y ys)
  show ?case
  proof (cases "x = y")
    case True
    have "max y seq \<le> fold max ys (max y seq)" by (rule fold_max_ge)
    with True show ?thesis by simp
  next
    case False
    with Cons show ?thesis by simp
  qed
qed

lemma next_id_fresh: "next_id seq ids \<notin> set ids"
proof
  assume "next_id seq ids \<in> set ids"
  then have "next_id seq ids \<le> fold max ids seq" by (rule fold_max_member)
  then show False by (simp add: next_id_def)
qed

lemma announce_event_ids: "map ev_id (events (fst (announce_event sent ev d))) = map ev_id (events d)"
  by (auto simp: announce_event_def split: option.splits)

lemma create_schedule_ids:
  "map ev_id (events (fst (create_schedule f now sent row ms d js))) = map ev_id (events d)"
proof (cases "ev_when_utc row")
  case None
  then show ?thesis by (auto simp: create_schedule_def split: option.splits sum.splits)
next
  case (Some t)
  obtain jsl el where sl: "schedule_leads now (ev_id row) (ev_guild_id row) (ev_channel_id row)
      (ev_title row) (ev_mention_role_id row) t ms (add_job (row_event_job row (DateTrigger t)) js)
      = (jsl, el)" by fastforce
  obtain da ea where an: "announce_event sent (ev_id row) d = (da, ea)" by fastforce
  from announce_event_ids [of sent "ev_id row" d] an
  have "map ev_id (events da) = map ev_id (events d)" by simp
  with Some sl an show ?thesis by (cases el; cases ea) (simp_all add: create_schedule_def)
qed

lemma event_create_ids_distinct:
  assumes "distinct (map ev_id (events d))"
  shows "distinct (map ev_id (events (fst (event_create ph f now sent rq d js))))"
proof -
  let ?ev = "next_id (events_seq d) (map ev_id (events d))"
  have "map ev_id (events (fst (event_create ph f now sent rq d js))) = map ev_id (events d)
      \<or> map ev_id (events (fst (event_create ph f now sent rq d js))) = map ev_id (events d) @ [?ev]"
    by (auto simp: event_create_def Let_def create_schedule_ids insert_event_def new_event_row_def
          split: option.splits sum.splits)
  with assms next_id_fresh [of "events_seq d" "map ev_id (events d)"] show ?thesis by auto
qed

lemma event_delete_ids_distinct:
  "distinct (map ev_id (events d))
     \<Longrightarrow> distinct (map ev_id (events (fst (event_delete guild event_id d js))))"
  by (simp add: event_delete_def Let_def distinct_map_filter)

subsection \<open>Firing a reminder\<close>

lemma send_reminder_absent:
  "find (\<lambda>r. rm_id r = reminder_id) (reminders d) = None
     \<Longrightarrow> send_reminder env reminder_id d = (d, [], None)"
  by (simp add: send_reminder_def)

lemma send_reminder_returns_deleted:
  assumes "snd (snd (send_reminder env reminder_id d)) = None"
  shows "reminder_id \<notin> set (map rm_id (reminders (fst (send_reminder env reminder_id d))))"
proof (cases "find (\<lambda>r. rm_id r = reminder_id) (reminders d)")
  case None
  then have "\<forall>r \<in> set (reminders d). rm_id r \<noteq> reminder_id" by (simp add: find_None_iff)
  with None show ?thesis by (auto simp: send_reminder_def)
next
  case (Some row)
  have "reminder_id \<notin> set (map rm_id (reminders (delete_reminder reminder_id d)))"
    by (auto simp: delete_reminder_def)
  with assms Some show ?thesis
    by (auto simp: send_reminder_def Let_def split: if_splits option.splits)
qed

lemma send_reminder_raised_kept:
  "snd (snd (send_reminder env reminder_id d)) = Some e
     \<Longrightarrow> fst (send_reminder env reminder_id d) = d"
  by (auto simp: send_reminder_def Let_def split: if_splits option.splits)

subsection \<open>Votes\<close>

lemma set_status_never_renders:
  "fst (snd (set_status edit_ok now event_id user status d)) = []
   \<and> (\<exists>e. snd (snd (set_status edit_ok now event_id user status d)) = Raised e)"
  by (simp add: set_status_def update_announcement_message_def Let_def)

lemma update_announcement_message_never_edits:
  "fst (update_announcement_message edit_ok event_id msg d) = []"
  by (simp add: update_announcement_message_def get_rsvp_counts_def split: option.splits)

subsection \<open>Creation\<close>

lemma event_create_bad_cron_persists:
  assumes "(case rq_channel rq of None \<Rightarrow> rq_here rq | Some c \<Rightarrow> Some c) = Some channel"
    and "\<not> truthy (rq_when rq)" and "rq_cron rq = Some c" and "c \<noteq> []"
    and "cron_trigger f c = Inl e"
    and "create_lead_list rq = Inr ms" and "rq_guild_id rq = Some guild"
  shows "event_create ph f now sent rq d js =
           (insert_event (new_event_row now rq (next_id (events_seq d) (map ev_id (events d)))
                            guild channel None ms) d,
            js, Reply BadCronExpression)"
proof -
  from assms(2) have "create_when ph rq d = Inr None"
    by (auto simp: create_when_def truthy_def split: option.splits)
  with assms show ?thesis
    by (simp add: event_create_def truthy_def Let_def create_schedule_def new_event_row_def)
qed

section \<open>Creation with a malformed cron expression\<close>

lemma py_split_four_stars: "py_split ''* * * *'' = [''*'', ''*'', ''*'', ''*'']"
  by code_simp

lemma cron_four_fields: "cron_trigger f ''* * * *'' = Inl ValueError"
  by (simp add: cron_trigger_def py_split_four_stars)

text \<open>
  C3. Creating a recurring event with the four-field expression \<^verbatim>\<open>* * * *\<close> answers
  "Bad cron expression" and schedules nothing, whatever the parser, the trigger
  library and the platform do; but the INSERT was committed before the expression was
  looked at, so the events table, empty before, holds the new row afterwards.
  Lemma \<open>event_create_bad_cron_persists\<close> is the same for every request with a
  rejected cron expression.
\<close>

theorem bad_cron_row_persisted:
  "event_create ph f 1000 sent bad_cron_request empty_db [] =
     (empty_db\<lparr>events := [new_event_row 1000 bad_cron_request 1 7 9 None []], events_seq := 1\<rparr>,
      [], Reply BadCronExpression)"
  by (simp add: event_create_def bad_cron_request_def empty_db_def truthy_def create_when_def
        create_lead_list_def next_id_def insert_event_def create_schedule_def new_event_row_def
        cron_four_fields)

section \<open>Firing a reminder whose delivery raises\<close>

text \<open>
  C4. A stored direct-message reminder fires and \<^verbatim>\<open>user.send\<close> raises: the exception
  leaves \<^verbatim>\<open>send_reminder\<close>, nothing is delivered and the reminder's row is still in the
  table afterwards. In general the store is unchanged whenever the call ends in an
  exception (\<open>send_reminder_raised_kept\<close>); the row is gone whenever the call
  returns (\<open>send_reminder_returns_deleted\<close>), and a fire for a row that is no longer
  there does nothing (\<open>send_reminder_absent\<close>).
\<close>

theorem reminder_kept_when_delivery_raises:
  "send_reminder unreachable_user 1 (empty_db\<lparr>reminders := [dm_reminder]\<rparr>) =
     (empty_db\<lparr>reminders := [dm_reminder]\<rparr>, [], Some DeliveryError)"
  by (simp add: send_reminder_def unreachable_user_def dm_reminder_def empty_db_def truthy_int_def)

section \<open>A vote on an announced event\<close>

text \<open>
  C5. A vote on an announced event (its row holds message id 555) stores the RSVP row
  and then raises TypeError from the one-argument call of
  \<^verbatim>\<open>update_announcement_message\<close>: no announcement is edited, whether or not the
  platform would accept the edit. No vote on any store edits an announcement
  (\<open>set_status_never_renders\<close>).
\<close>

theorem set_status_raises_before_render:
  "set_status edit_ok now 1 42 ''going'' (empty_db\<lparr>events := [announced_event]\<rparr>) =
     (empty_db\<lparr>events := [announced_event],
               event_rsvps := [\<lparr>rs_event_id = 1, rs_user_id = 42, rs_status = ''going'',
                                rs_updated_at = now\<rparr>]\<rparr>,
      [], Raised TypeError)"
  by (simp add: set_status_def update_announcement_message_def announced_event_def empty_db_def)

section \<open>Votes are upserts\<close>








section \<open>Scope of the deletes\<close>

text \<open>
  C10. The deletes are checked against the scope. When every events row with the id
  belongs to another guild than the invoking one, \<^verbatim>\<open>event_delete\<close> leaves the whole
  store as it was and answers "Event not found"; a row that \<^verbatim>\<open>event_delete\<close> removes
  has the id and the invoking guild. The same holds for \<^verbatim>\<open>remind_delete\<close> with the
  reminder's user.
\<close>

theorem delete_scope_checked:
  "((\<forall>r \<in> set (events d). ev_id r = event_id \<longrightarrow> Some (ev_guild_id r) \<noteq> guild) \<longrightarrow>
      fst (event_delete guild event_id d js) = d
      \<and> snd (snd (event_delete guild event_id d js)) = EventNotFound)
   \<and> (\<forall>r \<in> set (events d). r \<notin> set (events (fst (event_delete guild event_id d js))) \<longrightarrow>
        ev_id r = event_id \<and> Some (ev_guild_id r) = guild)
   \<and> ((\<forall>r \<in> set (reminders d). rm_id r = reminder_id \<longrightarrow> rm_user_id r \<noteq> Some user) \<longrightarrow>
      fst (remind_delete user reminder_id d js) = d
      \<and> snd (snd (remind_delete user reminder_id d js)) = ReminderNotFound)
   \<and> (\<forall>r \<in> set (reminders d). r \<notin> set (reminders (fst (remind_delete user reminder_id d js))) \<longrightarrow>
        rm_id r = reminder_id \<and> rm_user_id r = Some user)"
proof (intro conjI impI ballI)
  assume a: "\<forall>r \<in> set (events d). ev_id r = event_id \<longrightarrow> Some (ev_guild_id r) \<noteq> guild"
  then have none: "filter (event_matches event_id guild) (events d) = []"
    by (auto simp: filter_empty_conv event_matches_def)
  from a have all: "filter (\<lambda>r. \<not> event_matches event_id guild r) (events d) = events d"
    by (auto simp: filter_id_conv event_matches_def)
  show "fst (event_delete guild event_id d js) = d"
    by (simp add: event_delete_def Let_def none all)
  show "snd (snd (event_delete guild event_id d js)) = EventNotFound"
    by (simp add: event_delete_def Let_def none)
next
  fix r
  assume "r \<in> set (events d)" and "r \<notin> set (events (fst (event_delete guild event_id d js)))"
  then show "ev_id r = event_id" and "Some (ev_guild_id r) = guild"
    by (auto simp: event_delete_def Let_def event_matches_def)
next
  assume a: "\<forall>r \<in> set (reminders d). rm_id r = reminder_id \<longrightarrow> rm_user_id r \<noteq> Some user"
  then have none: "filter (reminder_matches reminder_id user) (reminders d) = []"
    by (auto simp: filter_empty_conv reminder_matches_def)
  from a have all: "filter (\<lambda>r. \<not> reminder_matches reminder_id user r) (reminders d) = reminders d"
    by (auto simp: filter_id_conv reminder_matches_def)
  show "fst (remind_delete user reminder_id d js) = d"
    by (simp add: remind_delete_def Let_def none all)
  show "snd (snd (remind_delete user reminder_id d js)) = ReminderNotFound"
    by (simp add: remind_delete_def Let_def none)
next
  fix r
  assume "r \<in> set (reminders d)" and "r \<notin> set (reminders (fst (remind_delete user reminder_id d js)))"
  then show "rm_id r = reminder_id" and "rm_user_id r = Some user"
    by (auto simp: remind_delete_def Let_def reminder_matches_def)
qed

theorem delete_scope_checked_witness:
  "fst (event_delete (Some 8) 1 other_scope_db []) = other_scope_db
   \<and> snd (snd (event_delete (Some 8) 1 other_scope_db [])) = EventNotFound
   \<and> fst (remind_delete 43 1 other_scope_db []) = other_scope_db
   \<and> snd (snd (remind_delete 43 1 other_scope_db [])) = ReminderNotFound
   \<and> events (fst (event_delete (Some 7) 1 other_scope_db [])) = []
   \<and> reminders (fst (remind_delete 42 1 other_scope_db [])) = []"
proof -
  have e: "\<forall>r \<in> set (events other_scope_db). ev_id r = 1 \<longrightarrow> Some (ev_guild_id r) \<noteq> Some 8"
    by (simp add: other_scope_db_def announced_event_def)
  have r: "\<forall>r \<in> set (reminders other_scope_db). rm_id r = 1 \<longrightarrow> rm_user_id r \<noteq> Some 43"
    by (simp add: other_scope_db_def dm_reminder_def)
  have gone: "events (fst (event_delete (Some 7) 1 other_scope_db [])) = []"
    "reminders (fst (remind_delete 42 1 other_scope_db [])) = []"
    by (simp_all add: event_delete_def remind_delete_def Let_def other_scope_db_def
          announced_event_def dm_reminder_def event_matches_def reminder_matches_def)
  from delete_scope_checked [of other_scope_db 1 "Some 8" "[]" 1 43] e r gone
  show ?thesis by simp
qed

section \<open>The whole of the startup rescheduling\<close>

lemma loaded_phases:
  assumes "schedule_loaded_jobs f now d js = (js', lg, None)"
  obtains js1 js2 where "schedule_dated_events now (events d) js = (js1, None)"
    and "schedule_cron_events f (events d) js1 [] = (js2, lg)"
    and "js' = schedule_reminders now (reminders d) js2"
proof -
  obtain js1 e1 where p1: "schedule_dated_events now (events d) js = (js1, e1)" by fastforce
  obtain js2 lg2 where p2: "schedule_cron_events f (events d) js1 [] = (js2, lg2)" by fastforce
  from assms p1 have "e1 = None" by (cases e1) (simp_all add: schedule_loaded_jobs_def)
  with assms p1 p2 that show thesis by (simp add: schedule_loaded_jobs_def)
qed

lemma loaded_returns:
  assumes "schedule_dated_events now (events d) js = (js1, None)"
  shows "\<exists>js' lg. schedule_loaded_jobs f now d js = (js', lg, None)"
proof -
  obtain js2 lg2 where "schedule_cron_events f (events d) js1 [] = (js2, lg2)" by fastforce
  with assms show ?thesis by (simp add: schedule_loaded_jobs_def)
qed

lemma loaded_distinct:
  assumes "schedule_loaded_jobs f now d js = (js', lg, None)" and "distinct (job_ids js)"
  shows "distinct (job_ids js')"
proof -
  from assms(1) obtain js1 js2 where p1: "schedule_dated_events now (events d) js = (js1, None)"
    and p2: "schedule_cron_events f (events d) js1 [] = (js2, lg)"
    and p3: "js' = schedule_reminders now (reminders d) js2"
    by (rule loaded_phases)
  from p1 assms(2) have "distinct (job_ids js1)" by (rule dated_distinct)
  with p2 have "distinct (job_ids js2)" by (rule cron_distinct)
  with p3 show ?thesis by (simp add: reminders_distinct)
qed

lemma cron_job_of:
  assumes "schedule_cron_events f rows js lg = (js', lg')" and "distinct (job_ids js)"
    and "distinct (map ev_id rows)" and "row \<in> set rows"
  shows "jobs_with_id (event_key (ev_id row)) js' =
           (case cron_of f row of
              None \<Rightarrow> jobs_with_id (event_key (ev_id row)) js
            | Some trg \<Rightarrow> [row_event_job row trg])"
  using cron_job [OF assms]
  by (simp add: cron_of_def split: option.split sum.split)

lemma loaded_event_job:
  assumes "schedule_loaded_jobs f now d js = (js', lg, None)" and "distinct (job_ids js)"
    and "distinct (map ev_id (events d))" and "row \<in> set (events d)"
  shows "jobs_with_id (event_key (ev_id row)) js' =
           (case cron_of f row of
              Some trg \<Rightarrow> [row_event_job row trg]
            | None \<Rightarrow>
                (case ev_when_utc row of
                   None \<Rightarrow> jobs_with_id (event_key (ev_id row)) js
                 | Some t \<Rightarrow> if now < t then [row_event_job row (DateTrigger t)]
                             else jobs_with_id (event_key (ev_id row)) js))"
proof -
  let ?k = "event_key (ev_id row)"
  from assms(1) obtain js1 js2 where p1: "schedule_dated_events now (events d) js = (js1, None)"
    and p2: "schedule_cron_events f (events d) js1 [] = (js2, lg)"
    and p3: "js' = schedule_reminders now (reminders d) js2"
    by (rule loaded_phases)
  from p1 assms(2) have d1: "distinct (job_ids js1)" by (rule dated_distinct)
  have "jobs_with_id ?k js' = jobs_with_id ?k js2"
    unfolding p3 by (rule reminders_frame) simp
  also from p2 d1 assms(3,4) have "\<dots> = (case cron_of f row of
              None \<Rightarrow> jobs_with_id ?k js1
            | Some trg \<Rightarrow> [row_event_job row trg])" by (rule cron_job_of)
  finally have step: "jobs_with_id ?k js' = (case cron_of f row of
              None \<Rightarrow> jobs_with_id ?k js1
            | Some trg \<Rightarrow> [row_event_job row trg])" .
  from p1 assms(2,3,4) have "jobs_with_id ?k js1 =
           (case ev_when_utc row of
              None \<Rightarrow> jobs_with_id ?k js
            | Some t \<Rightarrow> if now < t then [row_event_job row (DateTrigger t)]
                        else jobs_with_id ?k js)" by (rule dated_primary)
  with step show ?thesis by (cases "cron_of f row") simp_all
qed

lemma loaded_lead_job:
  assumes "schedule_loaded_jobs f now d js = (js', lg, None)" and "distinct (job_ids js)"
    and "distinct (map ev_id (events d))" and "row \<in> set (events d)"
  shows "jobs_with_id (lead_key (ev_id row) m) js' =
           (case ev_when_utc row of
              None \<Rightarrow> jobs_with_id (lead_key (ev_id row) m) js
            | Some t \<Rightarrow>
                if m \<in> set (stored_lead_offsets (ev_lead_minutes row)) \<and> now < t - m * 60000000
                then [row_lead_job row m (t - m * 60000000)]
                else jobs_with_id (lead_key (ev_id row) m) js)"
proof -
  let ?k = "lead_key (ev_id row) m"
  from assms(1) obtain js1 js2 where p1: "schedule_dated_events now (events d) js = (js1, None)"
    and p2: "schedule_cron_events f (events d) js1 [] = (js2, lg)"
    and p3: "js' = schedule_reminders now (reminders d) js2"
    by (rule loaded_phases)
  have "jobs_with_id ?k js' = jobs_with_id ?k js2"
    unfolding p3 by (rule reminders_frame) simp
  also from p2 have "\<dots> = jobs_with_id ?k js1" by (rule cron_frame) simp
  also from p1 assms(2,3,4) have "\<dots> =
           (case ev_when_utc row of
              None \<Rightarrow> jobs_with_id ?k js
            | Some t \<Rightarrow>
                if m \<in> set (stored_lead_offsets (ev_lead_minutes row)) \<and> now < t - m * 60000000
                then [row_lead_job row m (t - m * 60000000)]
                else jobs_with_id ?k js)" by (rule dated_lead)
  finally show ?thesis .
qed

lemma loaded_reminder_job:
  assumes "schedule_loaded_jobs f now d js = (js', lg, None)" and "distinct (job_ids js)"
    and "distinct (map rm_id (reminders d))" and "row \<in> set (reminders d)"
  shows "jobs_with_id (reminder_key (rm_id row)) js' =
           (if now < rm_when_utc row then [reminder_job (rm_id row) (rm_when_utc row)]
            else jobs_with_id (reminder_key (rm_id row)) js)"
proof -
  let ?k = "reminder_key (rm_id row)"
  from assms(1) obtain js1 js2 where p1: "schedule_dated_events now (events d) js = (js1, None)"
    and p2: "schedule_cron_events f (events d) js1 [] = (js2, lg)"
    and p3: "js' = schedule_reminders now (reminders d) js2"
    by (rule loaded_phases)
  from p1 assms(2) have "distinct (job_ids js1)" by (rule dated_distinct)
  with p2 have d2: "distinct (job_ids js2)" by (rule cron_distinct)
  from d2 assms(3,4) have "jobs_with_id ?k js' =
           (if now < rm_when_utc row then [reminder_job (rm_id row) (rm_when_utc row)]
            else jobs_with_id ?k js2)" unfolding p3 by (rule reminders_job)
  moreover from p2 have "jobs_with_id ?k js2 = jobs_with_id ?k js1" by (rule cron_frame) simp
  moreover from p1 have "jobs_with_id ?k js1 = jobs_with_id ?k js" by (rule dated_frame) simp
  ultimately show ?thesis by simp
qed

lemma jobs_with_id_empty [simp]: "jobs_with_id k [] = []"
  by (simp add: jobs_with_id_def)

lemma job_ids_empty [simp]: "job_ids [] = []"
  by (simp add: job_ids_def)

section \<open>Primary jobs after a startup rescheduling that returns\<close>

text \<open>
  When the startup rescheduling returns without an exception, from an empty job table
  and over a store whose event ids are unique: a stored event with an instant strictly
  in the future has exactly one job under \<^verbatim>\<open>event:{id}\<close>, the date job at that instant
  when the row holds no cron expression that the library accepts; an event whose
  instant is not strictly in the future and whose row holds no accepted cron expression
  has no job under that id.
\<close>

lemma reconcile_primary_job:
  assumes "schedule_loaded_jobs f now d [] = (js, lg, None)"
    and "distinct (map ev_id (events d))"
    and "row \<in> set (events d)" and "ev_when_utc row = Some t"
  shows "(now < t \<longrightarrow> length (jobs_with_id (event_key (ev_id row)) js) = 1)
       \<and> (now < t \<and> cron_of f row = None \<longrightarrow>
            jobs_with_id (event_key (ev_id row)) js = [row_event_job row (DateTrigger t)])
       \<and> (\<not> now < t \<and> cron_of f row = None \<longrightarrow> event_key (ev_id row) \<notin> set (job_ids js))"
proof -
  have "distinct (job_ids [])" by simp
  with assms(1) have "jobs_with_id (event_key (ev_id row)) js =
           (case cron_of f row of
              Some trg \<Rightarrow> [row_event_job row trg]
            | None \<Rightarrow>
                (case ev_when_utc row of
                   None \<Rightarrow> jobs_with_id (event_key (ev_id row)) []
                 | Some t \<Rightarrow> if now < t then [row_event_job row (DateTrigger t)]
                             else jobs_with_id (event_key (ev_id row)) []))"
    using assms(2,3) by (rule loaded_event_job)
  with assms(4) show ?thesis
    by (cases "cron_of f row") (simp_all add: jobs_with_id_member)
qed

text \<open>
  A row whose cron expression the library accepts has the cron job under
  \<^verbatim>\<open>event:{id}\<close>, whatever its instant.
\<close>

lemma reconcile_cron_job:
  assumes "schedule_loaded_jobs f now d [] = (js, lg, None)"
    and "distinct (map ev_id (events d))"
    and "row \<in> set (events d)" and "cron_of f row = Some trg"
  shows "jobs_with_id (event_key (ev_id row)) js = [row_event_job row trg]"
proof -
  have "distinct (job_ids [])" by simp
  with assms(1) have "jobs_with_id (event_key (ev_id row)) js =
           (case cron_of f row of
              Some trg \<Rightarrow> [row_event_job row trg]
            | None \<Rightarrow>
                (case ev_when_utc row of
                   None \<Rightarrow> jobs_with_id (event_key (ev_id row)) []
                 | Some t \<Rightarrow> if now < t then [row_event_job row (DateTrigger t)]
                             else jobs_with_id (event_key (ev_id row)) []))"
    using assms(2,3) by (rule loaded_event_job)
  with assms(4) show ?thesis by simp
qed

lemma event_key_1: "event_key 1 = ''event:1''"
  by code_simp

lemma future_db_run_early:
  "schedule_loaded_jobs any_fields 1000 future_db [] =
     ([\<lparr>job_id = ''event:1'', job_trigger = DateTrigger 5000,
        job_action = SendEvent 7 9 ''party'' None\<rparr>], [], None)"
  by (simp add: schedule_loaded_jobs_def future_db_def announced_event_def empty_db_def
        schedule_dated_event_def stored_lead_offsets_def row_event_job_def event_job_def
        event_key_1)

lemma future_db_run_late:
  "schedule_loaded_jobs any_fields 5000 future_db [] = ([], [], None)"
  by (simp add: schedule_loaded_jobs_def future_db_def announced_event_def empty_db_def
        schedule_dated_event_def stored_lead_offsets_def)

lemma reconcile_primary_job_example:
  "length (jobs_with_id (event_key 1) (fst (schedule_loaded_jobs any_fields 1000 future_db []))) = 1
   \<and> jobs_with_id (event_key 1) (fst (schedule_loaded_jobs any_fields 1000 future_db [])) =
       [row_event_job announced_event (DateTrigger 5000)]
   \<and> event_key 1 \<notin> set (job_ids (fst (schedule_loaded_jobs any_fields 5000 future_db [])))"
proof -
  have ids: "distinct (map ev_id (events future_db))"
    by (simp add: future_db_def)
  have mem: "announced_event \<in> set (events future_db)"
    by (simp add: future_db_def)
  have w: "ev_when_utc announced_event = Some 5000" "ev_id announced_event = 1"
    "cron_of any_fields announced_event = None"
    by (simp_all add: announced_event_def cron_of_def)
  from reconcile_primary_job [OF future_db_run_early ids mem w(1)]
    reconcile_primary_job [OF future_db_run_late ids mem w(1)] w
  show ?thesis by (simp add: future_db_run_early future_db_run_late)
qed

section \<open>A malformed cron expression in the store\<close>

lemma loaded_error:
  "snd (snd (schedule_loaded_jobs f now d js)) = snd (schedule_dated_events now (events d) js)"
proof -
  obtain js1 e1 where p1: "schedule_dated_events now (events d) js = (js1, e1)" by fastforce
  obtain js2 lg2 where p2: "schedule_cron_events f (events d) js1 [] = (js2, lg2)" by fastforce
  from p1 p2 show ?thesis by (cases e1) (simp_all add: schedule_loaded_jobs_def)
qed

text \<open>
  C9. The startup rescheduling ends with the exception of its first loop, if that has
  one, and with none otherwise (\<open>loaded_error\<close>): the cron loop cannot raise. When
  the first loop completes, over a store with unique ids, and some row holds a cron
  expression that the split or the trigger library rejects, the call returns, the
  warning for that row is in the log, the row has no cron job (its entry is what the
  first loop left), and every other item has its job: the cron job of each row with an
  accepted expression, the date job of each dated row still ahead, the lead jobs still
  ahead, and the job of each reminder still ahead.
\<close>

theorem bad_cron_skipped:
  assumes "schedule_dated_events now (events d) [] = (js1, None)"
    and "distinct (map ev_id (events d))" and "distinct (map rm_id (reminders d))"
    and "bad \<in> set (events d)" and "ev_cron bad = Some c" and "cron_trigger f c = Inl e"
  shows "\<exists>js lg. schedule_loaded_jobs f now d [] = (js, lg, None)
           \<and> BadCron (ev_id bad) e \<in> set lg
           \<and> jobs_with_id (event_key (ev_id bad)) js = jobs_with_id (event_key (ev_id bad)) js1
           \<and> (\<forall>row \<in> set (events d). \<forall>trg. cron_of f row = Some trg \<longrightarrow>
                 jobs_with_id (event_key (ev_id row)) js = [row_event_job row trg])
           \<and> (\<forall>row \<in> set (events d). \<forall>t. cron_of f row = None \<and> ev_when_utc row = Some t \<and> now < t \<longrightarrow>
                 jobs_with_id (event_key (ev_id row)) js = [row_event_job row (DateTrigger t)])
           \<and> (\<forall>row \<in> set (events d). \<forall>t m. ev_when_utc row = Some t
                   \<and> m \<in> set (stored_lead_offsets (ev_lead_minutes row)) \<and> now < t - m * 60000000 \<longrightarrow>
                 jobs_with_id (lead_key (ev_id row) m) js = [row_lead_job row m (t - m * 60000000)])
           \<and> (\<forall>row \<in> set (reminders d). now < rm_when_utc row \<longrightarrow>
                 jobs_with_id (reminder_key (rm_id row)) js =
                   [reminder_job (rm_id row) (rm_when_utc row)])"
proof -
  from assms(1) obtain js lg where run: "schedule_loaded_jobs f now d [] = (js, lg, None)"
    using loaded_returns by blast
  have d0: "distinct (job_ids [])" by simp
  from run obtain js1' js2 where p1: "schedule_dated_events now (events d) [] = (js1', None)"
    and p2: "schedule_cron_events f (events d) js1' [] = (js2, lg)"
    and p3: "js = schedule_reminders now (reminders d) js2"
    by (rule loaded_phases)
  from p1 assms(1) have same: "js1' = js1" by simp
  from p2 have "set lg = set [] \<union>
           {BadCron (ev_id row) e | row e c.
              row \<in> set (events d) \<and> ev_cron row = Some c \<and> cron_trigger f c = Inl e}"
    by (rule cron_log)
  with assms(4,5,6) have logged: "BadCron (ev_id bad) e \<in> set lg" by auto
  from assms(5,6) have nocron: "cron_of f bad = None" by (simp add: cron_of_def)
  from p1 d0 have d1: "distinct (job_ids js1')" by (rule dated_distinct)
  have "jobs_with_id (event_key (ev_id bad)) js = jobs_with_id (event_key (ev_id bad)) js2"
    unfolding p3 by (rule reminders_frame) simp
  also from cron_job_of [OF p2 d1 assms(2,4)] nocron
  have "\<dots> = jobs_with_id (event_key (ev_id bad)) js1'" by simp
  finally have skipped: "jobs_with_id (event_key (ev_id bad)) js = jobs_with_id (event_key (ev_id bad)) js1"
    using same by simp
  have crons: "\<forall>row \<in> set (events d). \<forall>trg. cron_of f row = Some trg \<longrightarrow>
                 jobs_with_id (event_key (ev_id row)) js = [row_event_job row trg]"
    using loaded_event_job [OF run d0 assms(2)] by simp
  have dates: "\<forall>row \<in> set (events d). \<forall>t. cron_of f row = None \<and> ev_when_utc row = Some t \<and> now < t \<longrightarrow>
                 jobs_with_id (event_key (ev_id row)) js = [row_event_job row (DateTrigger t)]"
    using loaded_event_job [OF run d0 assms(2)] by simp
  have leads: "\<forall>row \<in> set (events d). \<forall>t m. ev_when_utc row = Some t
                   \<and> m \<in> set (stored_lead_offsets (ev_lead_minutes row)) \<and> now < t - m * 60000000 \<longrightarrow>
                 jobs_with_id (lead_key (ev_id row) m) js = [row_lead_job row m (t - m * 60000000)]"
    using loaded_lead_job [OF run d0 assms(2)] by simp
  have rems: "\<forall>row \<in> set (reminders d). now < rm_when_utc row \<longrightarrow>
                 jobs_with_id (reminder_key (rm_id row)) js =
                   [reminder_job (rm_id row) (rm_when_utc row)]"
    using loaded_reminder_job [OF run d0 assms(3)] by simp
  from run logged skipped crons dates leads rems show ?thesis by blast
qed

lemma py_split_weekly: "py_split ''0 19 * * 2'' = [''0'', ''19'', ''*'', ''*'', ''2'']"
  by code_simp

lemma cron_weekly:
  "cron_trigger any_fields ''0 19 * * 2'' = Inr (CronTrigger ''0'' ''19'' ''*'' ''*'' ''2'')"
  by (simp add: cron_trigger_def py_split_weekly any_fields_def)

theorem bad_cron_skipped_witness:
  "snd (snd (schedule_loaded_jobs any_fields 100 mixed_db [])) = None
   \<and> BadCron 1 ValueError \<in> set (fst (snd (schedule_loaded_jobs any_fields 100 mixed_db [])))
   \<and> jobs_with_id (event_key 1) (fst (schedule_loaded_jobs any_fields 100 mixed_db [])) = []
   \<and> jobs_with_id (event_key 2) (fst (schedule_loaded_jobs any_fields 100 mixed_db [])) =
       [row_event_job weekly_event (CronTrigger ''0'' ''19'' ''*'' ''*'' ''2'')]
   \<and> jobs_with_id (reminder_key 1) (fst (schedule_loaded_jobs any_fields 100 mixed_db [])) =
       [reminder_job 1 500]"
proof -
  have dated: "schedule_dated_events 100 (events mixed_db) [] = ([], None)"
    by (simp add: mixed_db_def bad_cron_event_def weekly_event_def)
  have ids: "distinct (map ev_id (events mixed_db))" "distinct (map rm_id (reminders mixed_db))"
    by (simp_all add: mixed_db_def bad_cron_event_def weekly_event_def)
  have bad: "bad_cron_event \<in> set (events mixed_db)" "ev_cron bad_cron_event = Some ''* * * *''"
    by (simp_all add: mixed_db_def bad_cron_event_def)
  have good: "weekly_event \<in> set (events mixed_db)" "ev_id weekly_event = 2"
    "cron_of any_fields weekly_event = Some (CronTrigger ''0'' ''19'' ''*'' ''*'' ''2'')"
    by (simp_all add: mixed_db_def weekly_event_def cron_of_def cron_weekly)
  have rem: "dm_reminder \<in> set (reminders mixed_db)" "rm_id dm_reminder = 1"
    "rm_when_utc dm_reminder = 500"
    by (simp_all add: mixed_db_def dm_reminder_def)
  from bad_cron_skipped [OF dated ids bad cron_four_fields]
  obtain js lg where run: "schedule_loaded_jobs any_fields 100 mixed_db [] = (js, lg, None)"
    and logged: "BadCron (ev_id bad_cron_event) ValueError \<in> set lg"
    and skipped: "jobs_with_id (event_key (ev_id bad_cron_event)) js
                    = jobs_with_id (event_key (ev_id bad_cron_event)) []"
    and crons: "\<forall>row \<in> set (events mixed_db). \<forall>trg. cron_of any_fields row = Some trg \<longrightarrow>
                 jobs_with_id (event_key (ev_id row)) js = [row_event_job row trg]"
    and rems: "\<forall>row \<in> set (reminders mixed_db). 100 < rm_when_utc row \<longrightarrow>
                 jobs_with_id (reminder_key (rm_id row)) js =
                   [reminder_job (rm_id row) (rm_when_utc row)]"
    by blast
  from crons good have "jobs_with_id (event_key 2) js =
       [row_event_job weekly_event (CronTrigger ''0'' ''19'' ''*'' ''*'' ''2'')]"
    by fastforce
  moreover from rems rem have "jobs_with_id (reminder_key 1) js = [reminder_job 1 500]"
    by fastforce
  moreover from skipped have "jobs_with_id (event_key 1) js = []"
    by (simp add: bad_cron_event_def)
  moreover from logged have "BadCron 1 ValueError \<in> set lg" by (simp add: bad_cron_event_def)
  ultimately show ?thesis by (simp add: run)
qed

section \<open>Lead jobs\<close>

lemma parse_lead_minutes_offsets:
  assumes "parse_lead_minutes s = Inr ms"
  shows "distinct ms \<and> (\<forall>m \<in> set ms. 0 < m)
       \<and> (\<exists>xs. lead_set s = Inr xs \<and> set ms = {m \<in> set xs. 0 < m})"
proof -
  from assms obtain xs where xs: "lead_set s = Inr xs" and ms: "ms = filter (\<lambda>m. 0 < m) (rev (sort xs))"
    by (auto simp: parse_lead_minutes_def split: sum.splits)
  from xs have "distinct xs" by (auto simp: lead_set_def split: option.splits)
  with ms have "distinct ms" by simp
  moreover from ms have "set ms = {m \<in> set xs. 0 < m}" by auto
  ultimately show ?thesis using xs by auto
qed

lemma stored_lead_offsets_positive:
  "m \<in> set (stored_lead_offsets lead_str) \<Longrightarrow> 0 < m"
proof -
  assume m: "m \<in> set (stored_lead_offsets lead_str)"
  then obtain s ms where "parse_lead_minutes s = Inr ms" and "m \<in> set ms"
    by (auto simp: stored_lead_offsets_def split: option.splits if_splits sum.splits)
       (metis)
  with parse_lead_minutes_offsets [of s ms] show "0 < m" by simp
qed

lemma event_create_announced:
  assumes "event_create ph f now sent rq d js = (d', js', Reply EventCreatedAnnounced)"
    and "create_when ph rq d = Inr (Some t)" and "create_lead_list rq = Inr ms"
  obtains guild channel where
    "schedule_leads now (next_id (events_seq d) (map ev_id (events d))) guild channel (rq_title rq)
       (rq_mention_role rq) t ms
       (add_job (event_job (next_id (events_seq d) (map ev_id (events d))) (DateTrigger t) guild
                   channel (rq_title rq) (rq_mention_role rq)) js) = (js', None)"
proof -
  let ?ev = "next_id (events_seq d) (map ev_id (events d))"
  from assms(1) obtain channel where ch: "(case rq_channel rq of None \<Rightarrow> rq_here rq | Some c \<Rightarrow> Some c) = Some channel"
    by (cases "case rq_channel rq of None \<Rightarrow> rq_here rq | Some c \<Rightarrow> Some c")
       (simp_all add: event_create_def)
  from assms ch have ok: "\<not> (\<not> truthy (rq_when rq) \<and> \<not> truthy (rq_cron rq))"
    by (auto simp: event_create_def split: if_splits)
  from assms ch ok obtain guild where g: "rq_guild_id rq = Some guild"
    by (cases "rq_guild_id rq") (simp_all add: event_create_def)
  let ?row = "new_event_row now rq ?ev guild channel (Some t) ms"
  from assms ch ok g have cs: "create_schedule f now sent ?row ms (insert_event ?row d) js
      = (d', js', Reply EventCreatedAnnounced)"
    by (simp add: event_create_def Let_def)
  obtain js1 e1 where sl: "schedule_leads now ?ev guild channel (rq_title rq) (rq_mention_role rq) t ms
       (add_job (event_job ?ev (DateTrigger t) guild channel (rq_title rq) (rq_mention_role rq)) js)
       = (js1, e1)" by fastforce
  from cs sl have "e1 = None \<and> js1 = js'"
    by (cases e1)
       (auto simp: create_schedule_def new_event_row_def row_event_job_def
             split: prod.splits option.splits)
  with sl have "schedule_leads now ?ev guild channel (rq_title rq) (rq_mention_role rq) t ms
       (add_job (event_job ?ev (DateTrigger t) guild channel (rq_title rq) (rq_mention_role rq)) js)
       = (js', None)" by simp
  then show thesis by (rule that)
qed

lemma create_lead_jobs:
  assumes "event_create ph f now sent rq d js = (d', js', Reply EventCreatedAnnounced)"
    and "distinct (job_ids js)"
    and "create_when ph rq d = Inr (Some t)" and "create_lead_list rq = Inr ms" and "m \<in> set ms"
  shows "(now < t - m * 60000000 \<longrightarrow>
            map job_trigger (jobs_with_id (lead_key (next_id (events_seq d) (map ev_id (events d))) m) js')
              = [DateTrigger (t - m * 60000000)])
       \<and> (t - m * 60000000 \<le> now \<longrightarrow>
            jobs_with_id (lead_key (next_id (events_seq d) (map ev_id (events d))) m) js'
              = jobs_with_id (lead_key (next_id (events_seq d) (map ev_id (events d))) m) js)"
proof -
  let ?ev = "next_id (events_seq d) (map ev_id (events d))"
  from assms(1,3,4) obtain guild channel where sl:
    "schedule_leads now ?ev guild channel (rq_title rq) (rq_mention_role rq) t ms
       (add_job (event_job ?ev (DateTrigger t) guild channel (rq_title rq) (rq_mention_role rq)) js)
       = (js', None)" by (rule event_create_announced)
  let ?js0 = "add_job (event_job ?ev (DateTrigger t) guild channel (rq_title rq) (rq_mention_role rq)) js"
  from assms(2) have d0: "distinct (job_ids ?js0)" by (rule distinct_add_job)
  have unchanged: "jobs_with_id (lead_key ?ev m) ?js0 = jobs_with_id (lead_key ?ev m) js"
    by (simp add: jobs_with_id_add_other)
  from leads_job [OF sl d0, of m] assms(5) unchanged show ?thesis
    by (auto simp: lead_job_def)
qed

text \<open>
  The offsets are the distinct positive integers of the offset string
  (\<open>parse_lead_minutes_offsets\<close>). When no subtraction leaves the range of the
  instants, that is after a startup rescheduling that returns without an exception,
  from an empty job table, and after a creation that ends with the announcement: a
  lead job exists under \<^verbatim>\<open>event:{id}:lead:{m}\<close> exactly when the instant minus \<open>m\<close>
  minutes is strictly after the clock; a lead instant that equals the clock is not
  scheduled.
\<close>

lemma lead_jobs_strictly_future:
  "(schedule_loaded_jobs f now d [] = (js, lg, None) \<and> distinct (map ev_id (events d))
      \<and> row \<in> set (events d) \<and> ev_when_utc row = Some t
      \<and> m \<in> set (stored_lead_offsets (ev_lead_minutes row)) \<longrightarrow>
        (now < t - m * 60000000 \<longrightarrow>
           jobs_with_id (lead_key (ev_id row) m) js = [row_lead_job row m (t - m * 60000000)])
      \<and> (t - m * 60000000 \<le> now \<longrightarrow> lead_key (ev_id row) m \<notin> set (job_ids js)))
   \<and> (event_create ph f' now' sent rq d' js0 = (d'', js', Reply EventCreatedAnnounced)
        \<and> distinct (job_ids js0) \<and> create_when ph rq d' = Inr (Some t')
        \<and> create_lead_list rq = Inr ms \<and> m' \<in> set ms \<longrightarrow>
        (now' < t' - m' * 60000000 \<longrightarrow>
           map job_trigger
             (jobs_with_id (lead_key (next_id (events_seq d') (map ev_id (events d'))) m') js')
             = [DateTrigger (t' - m' * 60000000)])
      \<and> (t' - m' * 60000000 \<le> now' \<longrightarrow>
           jobs_with_id (lead_key (next_id (events_seq d') (map ev_id (events d'))) m') js'
             = jobs_with_id (lead_key (next_id (events_seq d') (map ev_id (events d'))) m') js0))"
proof (intro conjI impI; (elim conjE)?)
  assume run: "schedule_loaded_jobs f now d [] = (js, lg, None)"
    and ids: "distinct (map ev_id (events d))" and mem: "row \<in> set (events d)"
    and w: "ev_when_utc row = Some t"
    and m: "m \<in> set (stored_lead_offsets (ev_lead_minutes row))"
  have d0: "distinct (job_ids [])" by simp
  note job = loaded_lead_job [OF run d0 ids mem, of m]
  {
    assume "now < t - m * 60000000"
    with job w m show "jobs_with_id (lead_key (ev_id row) m) js = [row_lead_job row m (t - m * 60000000)]"
      by simp
  }
  {
    assume "t - m * 60000000 \<le> now"
    with job w have "jobs_with_id (lead_key (ev_id row) m) js = []" by simp
    then show "lead_key (ev_id row) m \<notin> set (job_ids js)" by (simp add: jobs_with_id_member)
  }
next
  assume ec: "event_create ph f' now' sent rq d' js0 = (d'', js', Reply EventCreatedAnnounced)"
    and dj: "distinct (job_ids js0)" and cw: "create_when ph rq d' = Inr (Some t')"
    and cl: "create_lead_list rq = Inr ms" and m: "m' \<in> set ms"
  note both = create_lead_jobs [OF ec dj cw cl m]
  {
    assume "now' < t' - m' * 60000000"
    with both show "map job_trigger
             (jobs_with_id (lead_key (next_id (events_seq d') (map ev_id (events d'))) m') js')
             = [DateTrigger (t' - m' * 60000000)]" by simp
  }
  {
    assume "t' - m' * 60000000 \<le> now'"
    with both show "jobs_with_id (lead_key (next_id (events_seq d') (map ev_id (events d'))) m') js'
             = jobs_with_id (lead_key (next_id (events_seq d') (map ev_id (events d'))) m') js0"
      by simp
  }
qed

lemma parse_60_10: "parse_lead_minutes ''60,10'' = Inr [60, 10]"
  by code_simp

lemma keys_1: "event_key 1 = ''event:1''" "lead_key 1 10 = ''event:1:lead:10''"
  "lead_key 1 60 = ''event:1:lead:60''" "str_int 10 = ''10''" "str_int 60 = ''60''"
  by code_simp+

lemma lead_request_created:
  "event_create hour_parser any_fields 0 (Some 555) lead_request empty_db [] =
     (lead_db,
      [\<lparr>job_id = ''event:1'', job_trigger = DateTrigger 3600000000,
        job_action = SendEvent 7 9 ''party'' None\<rparr>,
       \<lparr>job_id = ''event:1:lead:10'', job_trigger = DateTrigger 3000000000,
        job_action = SendEvent 7 9 ''party starts in 10 min'' None\<rparr>],
      Reply EventCreatedAnnounced)"
  by (simp add: event_create_def lead_request_def empty_db_def truthy_def create_when_def
        hour_parser_def create_lead_list_def parse_60_10 next_id_def new_event_row_def
        insert_event_def create_schedule_def row_event_job_def event_job_def lead_job_def
        minus_minutes_def DT_MIN_def DT_MAX_def keys_1 announce_event_def lead_db_def
        lead_event_def user_timezone_def Let_def)

lemma lead_db_reloaded:
  "schedule_loaded_jobs any_fields 0 lead_db [] =
     ([\<lparr>job_id = ''event:1'', job_trigger = DateTrigger 3600000000,
        job_action = SendEvent 7 9 ''party'' None\<rparr>,
       \<lparr>job_id = ''event:1:lead:10'', job_trigger = DateTrigger 3000000000,
        job_action = SendEvent 7 9 ''party starts in 10 min'' None\<rparr>], [], None)"
  by (simp add: schedule_loaded_jobs_def lead_db_def lead_event_def empty_db_def
        schedule_dated_event_def stored_lead_offsets_def parse_60_10 row_event_job_def
        event_job_def lead_job_def minus_minutes_def DT_MIN_def DT_MAX_def keys_1 Let_def)

lemma lead_jobs_strictly_future_example:
  "map job_trigger (jobs_with_id (lead_key 1 10)
      (fst (snd (event_create hour_parser any_fields 0 (Some 555) lead_request empty_db []))))
     = [DateTrigger 3000000000]
   \<and> jobs_with_id (lead_key 1 60)
      (fst (snd (event_create hour_parser any_fields 0 (Some 555) lead_request empty_db []))) = []
   \<and> jobs_with_id (lead_key 1 10) (fst (schedule_loaded_jobs any_fields 0 lead_db []))
     = [row_lead_job lead_event 10 3000000000]
   \<and> lead_key 1 60 \<notin> set (job_ids (fst (schedule_loaded_jobs any_fields 0 lead_db [])))"
proof -
  have ids: "distinct (map ev_id (events lead_db))" "lead_event \<in> set (events lead_db)"
    "ev_when_utc lead_event = Some 3600000000" "ev_id lead_event = 1"
    by (simp_all add: lead_db_def lead_event_def)
  have offs: "stored_lead_offsets (ev_lead_minutes lead_event) = [60, 10]"
    by (simp add: stored_lead_offsets_def lead_event_def parse_60_10)
  have cw: "create_when hour_parser lead_request empty_db = Inr (Some 3600000000)"
    by (simp add: create_when_def lead_request_def hour_parser_def)
  have cl: "create_lead_list lead_request = Inr [60, 10]"
    by (simp add: create_lead_list_def lead_request_def parse_60_10)
  have ev: "next_id (events_seq empty_db) (map ev_id (events empty_db)) = 1"
    by (simp add: next_id_def empty_db_def)
  have d0: "distinct (job_ids [])" by simp
  note ten = lead_jobs_strictly_future [where f = any_fields and now = 0 and d = lead_db
      and row = lead_event and t = 3600000000 and m = 10 and ph = hour_parser
      and f' = any_fields and now' = 0 and sent = "Some 555" and rq = lead_request
      and d' = empty_db and ?js0.0 = "[]" and t' = 3600000000 and ms = "[60, 10]" and m' = 10,
      unfolded lead_request_created lead_db_reloaded]
  note sixty = lead_jobs_strictly_future [where f = any_fields and now = 0 and d = lead_db
      and row = lead_event and t = 3600000000 and m = 60 and ph = hour_parser
      and f' = any_fields and now' = 0 and sent = "Some 555" and rq = lead_request
      and d' = empty_db and ?js0.0 = "[]" and t' = 3600000000 and ms = "[60, 10]" and m' = 60,
      unfolded lead_request_created lead_db_reloaded]
  from ten sixty ids offs cw cl ev d0 show ?thesis
    by (simp add: lead_request_created lead_db_reloaded row_lead_job_def lead_job_def)
qed

section \<open>Deleting an event cancels its jobs\<close>

subsection \<open>The stored offset string reads back as the offsets\<close>

lemma digit_not_space: "is_digit c \<Longrightarrow> \<not> is_space c"
  by (auto simp: is_digit_def is_space_def Let_def)

lemma digit_not_comma: "is_digit c \<Longrightarrow> c \<noteq> CHR '',''"
  by (auto simp: is_digit_def)

lemma digits_nonempty: "digits n \<noteq> []"
  by (subst digits.simps) simp

lemma digits_ok_digits: "\<forall>c \<in> set s. is_digit c \<Longrightarrow> digits_ok b s = (b \<or> s \<noteq> [])"
  by (induction s arbitrary: b) auto

lemma digits_value_of_digits: "digits_value (digits n) = n"
proof -
  have "filter is_digit (digits n) = digits n"
    by (simp add: filter_id_conv digits_all_digit)
  then show ?thesis by (simp add: digits_value_def digits_value_digits)
qed

lemma strip_no_space:
  assumes "s \<noteq> []" and "\<not> is_space (hd s)" and "\<not> is_space (last s)"
  shows "strip s = s"
proof -
  from assms(1,2) have a: "dropWhile is_space s = s" by (cases s) simp_all
  from assms(1,3) have "dropWhile is_space (rev s) = rev s"
    by (cases "rev s") (simp_all add: hd_rev [symmetric])
  with a show ?thesis by (simp add: strip_def)
qed

lemma str_int_chars: "c \<in> set (str_int i) \<Longrightarrow> is_digit c \<or> c = CHR ''-''"
  by (auto simp: str_int_def dest: digits_all_digit split: if_splits)

lemma str_int_nonempty: "str_int i \<noteq> []"
  by (simp add: str_int_def digits_nonempty)

lemma minus_not_space: "\<not> is_space CHR ''-''"
  by (simp add: is_space_def)

lemma strip_str_int: "strip (str_int i) = str_int i"
proof (rule strip_no_space)
  show ne: "str_int i \<noteq> []" by (rule str_int_nonempty)
  have no_space: "\<not> is_space c" if "c \<in> set (str_int i)" for c
  proof -
    from that have "is_digit c \<or> c = CHR ''-''" by (rule str_int_chars)
    then show ?thesis
    proof
      assume "is_digit c"
      then show ?thesis by (rule digit_not_space)
    next
      assume "c = CHR ''-''"
      then show ?thesis by (simp add: minus_not_space)
    qed
  qed
  from ne have "hd (str_int i) \<in> set (str_int i)" by simp
  then show "\<not> is_space (hd (str_int i))" by (rule no_space)
  from ne have "last (str_int i) \<in> set (str_int i)" by simp
  then show "\<not> is_space (last (str_int i))" by (rule no_space)
qed

lemma py_int_str_int: "py_int (str_int i) = Some i"
proof (cases "i < 0")
  case True
  have "digits_ok False (digits (nat (- i)))"
    by (simp add: digits_ok_digits digits_all_digit digits_nonempty)
  with True show ?thesis
    unfolding py_int_def strip_str_int
    by (simp add: str_int_def digits_value_of_digits)
next
  case False
  obtain c cs where d: "digits (nat i) = c # cs"
    using digits_nonempty [of "nat i"] by (cases "digits (nat i)") auto
  then have "c \<in> set (digits (nat i))" by simp
  then have dc: "is_digit c" by (rule digits_all_digit)
  then have c: "c \<noteq> CHR ''-''" "c \<noteq> CHR ''+''" by (auto simp: is_digit_def)
  have ok: "digits_ok False (digits (nat i))"
    by (simp add: digits_ok_digits digits_all_digit digits_nonempty)
  have v: "digits_value (digits (nat i)) = nat i" by (rule digits_value_of_digits)
  from False d c ok v show ?thesis
    unfolding py_int_def strip_str_int
    by (simp add: str_int_def)
qed

lemma comma_not_in_str_int: "CHR '','' \<notin> set (str_int i)"
  using str_int_chars [of "CHR '',''" i] by (auto simp: is_digit_def)

lemma split_where_none: "\<forall>c \<in> set s. \<not> P c \<Longrightarrow> split_where P s = [s]"
  by (induction s) auto

lemma split_where_append:
  "\<forall>c \<in> set s. \<not> P c \<Longrightarrow> P x \<Longrightarrow> split_where P (s @ x # t) = s # split_where P t"
  by (induction s) auto

lemma split_join_sep:
  "xs \<noteq> [] \<Longrightarrow> \<forall>x \<in> set xs. c \<notin> set x
     \<Longrightarrow> split_where (\<lambda>a. a = c) (join [c] xs) = xs"
proof (induction xs rule: induct_list012)
  case 1
  then show ?case by simp
next
  case (2 x)
  then have "\<forall>a \<in> set x. \<not> a = c" by auto
  then show ?case by (simp add: split_where_none)
next
  case (3 x y ys)
  from "3.prems" have "split_where (\<lambda>a. a = c) (join [c] (y # ys)) = y # ys"
    by (intro "3.IH") simp_all
  moreover from "3.prems" have "\<forall>a \<in> set x. \<not> a = c" by auto
  then have "split_where (\<lambda>a. a = c) (x @ c # join [c] (y # ys))
      = x # split_where (\<lambda>a. a = c) (join [c] (y # ys))"
    by (rule split_where_append) simp
  ultimately show ?case by simp
qed

lemma split_join:
  "xs \<noteq> [] \<Longrightarrow> \<forall>x \<in> set xs. CHR '','' \<notin> set x \<Longrightarrow> split_on CHR '','' (join '','' xs) = xs"
  unfolding split_on_def by (rule split_join_sep)

lemma those_map_Some: "those (map Some xs) = Some xs"
  by (induction xs) simp_all

lemma lead_set_join:
  assumes "ms \<noteq> []"
  shows "lead_set (join '','' (map str_int ms)) = Inr (remdups ms)"
proof -
  have sp: "split_on CHR '','' (join '','' (map str_int ms)) = map str_int ms"
    by (rule split_join) (use assms comma_not_in_str_int in auto)
  have keep: "filter (\<lambda>x. strip x \<noteq> []) (map str_int ms) = map str_int ms"
    by (simp add: filter_id_conv strip_str_int str_int_nonempty)
  have "map (\<lambda>x. py_int (strip x)) (map str_int ms) = map Some ms"
    by (simp add: strip_str_int py_int_str_int)
  then have "those (map (\<lambda>x. py_int (strip x)) (map str_int ms)) = Some ms"
    by (simp only: those_map_Some)
  then show ?thesis unfolding lead_set_def sp keep by simp
qed

lemma rev_sort_descending:
  assumes "sorted (rev ms)" and "distinct ms"
  shows "rev (sort ms) = (ms :: int list)"
proof -
  have "sort ms = rev ms"
    by (rule sorted_distinct_set_unique) (use assms in simp_all)
  then show ?thesis by simp
qed

lemma join_nonempty: "xs \<noteq> [] \<Longrightarrow> \<forall>x \<in> set xs. x \<noteq> [] \<Longrightarrow> join sep xs \<noteq> []"
  by (induction sep xs rule: join.induct) auto

lemma parse_lead_minutes_shape:
  assumes "parse_lead_minutes s = Inr ms"
  shows "distinct ms \<and> sorted (rev ms) \<and> (\<forall>m \<in> set ms. 0 < m)"
proof -
  from assms obtain xs where ms: "ms = filter (\<lambda>m. 0 < m) (rev (sort xs))"
    by (auto simp: parse_lead_minutes_def split: sum.splits)
  then have "rev ms = filter (\<lambda>m. 0 < m) (sort xs)" by (simp add: rev_filter)
  then have "sorted (rev ms)" by (simp add: sorted_wrt_filter)
  with parse_lead_minutes_offsets [OF assms] show ?thesis by simp
qed

lemma stored_offsets_read_back:
  assumes "distinct ms" and "sorted (rev ms)" and "\<forall>m \<in> set ms. 0 < m" and "ms \<noteq> []"
  shows "stored_lead_offsets (Some (join '','' (map str_int ms))) = ms"
proof -
  from assms(4) have ne: "join '','' (map str_int ms) \<noteq> []"
    by (intro join_nonempty) (simp_all add: str_int_nonempty)
  from assms(4) have "lead_set (join '','' (map str_int ms)) = Inr (remdups ms)"
    by (rule lead_set_join)
  with assms(1) have ls: "lead_set (join '','' (map str_int ms)) = Inr ms" by simp
  from assms(2,1) have "rev (sort ms) = ms" by (rule rev_sort_descending)
  with assms(3) have "filter (\<lambda>m. 0 < m) (rev (sort ms)) = ms" by (simp add: filter_id_conv)
  with ne ls show ?thesis by (simp add: stored_lead_offsets_def parse_lead_minutes_def)
qed

lemma created_offsets_read_back:
  assumes "create_lead_list rq = Inr ms"
  shows "stored_lead_offsets (ev_lead_minutes (new_event_row now rq ev guild channel w ms)) = ms"
proof (cases "ms = []")
  case True
  then show ?thesis by (simp add: new_event_row_def stored_lead_offsets_def)
next
  case False
  with assms obtain s where "parse_lead_minutes s = Inr ms"
    by (auto simp: create_lead_list_def split: option.splits if_splits sum.splits)
  then have "distinct ms \<and> sorted (rev ms) \<and> (\<forall>m \<in> set ms. 0 < m)"
    by (rule parse_lead_minutes_shape)
  with False have "stored_lead_offsets (Some (join '','' (map str_int ms))) = ms"
    by (intro stored_offsets_read_back) simp_all
  with False show ?thesis by (simp add: new_event_row_def)
qed

subsection \<open>Removing the jobs\<close>

lemma fold_try_remove_ids:
  "set (job_ids (fold (\<lambda>m. try_remove_job (g m)) ms js)) = set (job_ids js) - g ` set ms"
proof (induction ms arbitrary: js)
  case Nil
  then show ?case by simp
next
  case (Cons m ms)
  have "set (job_ids (fold (\<lambda>m. try_remove_job (g m)) ms (try_remove_job (g m) js)))
          = set (job_ids (try_remove_job (g m) js)) - g ` set ms" by (rule Cons.IH)
  then show ?case by (auto simp: job_ids_try_remove)
qed

lemma remove_lead_jobs_subset:
  "set (job_ids (remove_lead_jobs event_id row js)) \<subseteq> set (job_ids js)"
  by (auto simp: remove_lead_jobs_def fold_try_remove_ids split: option.splits sum.splits)

lemma stored_lead_offsets_in_lead_set:
  assumes "m \<in> set (stored_lead_offsets (Some s))"
  shows "s \<noteq> [] \<and> (\<exists>xs. lead_set s = Inr xs \<and> m \<in> set xs)"
proof -
  from assms have ne: "s \<noteq> []" by (auto simp: stored_lead_offsets_def split: if_splits)
  with assms obtain ms where p: "parse_lead_minutes s = Inr ms" and m: "m \<in> set ms"
    by (cases "parse_lead_minutes s") (auto simp: stored_lead_offsets_def)
  from parse_lead_minutes_offsets [OF p] m ne show ?thesis by auto
qed

lemma remove_lead_jobs_removes:
  assumes "m \<in> set (stored_lead_offsets (ev_lead_minutes r))"
  shows "lead_key event_id m \<notin> set (job_ids (remove_lead_jobs event_id (Some r) js))"
proof (cases "ev_lead_minutes r")
  case None
  with assms show ?thesis by (simp add: stored_lead_offsets_def)
next
  case (Some s)
  with assms have "m \<in> set (stored_lead_offsets (Some s))" by simp
  then obtain xs where "s \<noteq> []" and "lead_set s = Inr xs" and "m \<in> set xs"
    using stored_lead_offsets_in_lead_set by blast
  with Some show ?thesis by (simp add: remove_lead_jobs_def fold_try_remove_ids)
qed

lemma loaded_frame:
  assumes "\<forall>row \<in> set (events d). k \<noteq> event_key (ev_id row) \<and> (\<forall>m. k \<noteq> lead_key (ev_id row) m)"
    and "\<forall>row \<in> set (reminders d). k \<noteq> reminder_key (rm_id row)"
  shows "jobs_with_id k (fst (schedule_loaded_jobs f now d js)) = jobs_with_id k js"
proof -
  obtain js1 e1 where p1: "schedule_dated_events now (events d) js = (js1, e1)" by fastforce
  obtain js2 lg2 where p2: "schedule_cron_events f (events d) js1 [] = (js2, lg2)" by fastforce
  from p1 assms(1) have f1: "jobs_with_id k js1 = jobs_with_id k js" by (rule dated_frame)
  show ?thesis
  proof (cases e1)
    case (Some e)
    with p1 f1 show ?thesis by (simp add: schedule_loaded_jobs_def)
  next
    case None
    from p2 have "jobs_with_id k js2 = jobs_with_id k js1"
      by (rule cron_frame) (use assms(1) in simp)
    moreover from assms(2)
    have "jobs_with_id k (schedule_reminders now (reminders d) js2) = jobs_with_id k js2"
      by (rule reminders_frame)
    ultimately show ?thesis using None p1 p2 f1 by (simp add: schedule_loaded_jobs_def)
  qed
qed

lemma distinct_map_eq:
  "distinct (map f xs) \<Longrightarrow> x \<in> set xs \<Longrightarrow> y \<in> set xs \<Longrightarrow> f x = f y \<Longrightarrow> x = y"
  by (meson distinct_map inj_onD)

text \<open>
  C8. Deleting an event that exists in the invoking guild answers "Deleted", whatever
  the job table holds (an id that is absent from it is passed over), and removes the
  row. Afterwards the table has no job under the primary id \<^verbatim>\<open>event:{id}\<close> and none
  under \<^verbatim>\<open>event:{id}:lead:{m}\<close> for any offset \<open>m\<close> of the row's stored list, so none of
  them can fire; and with unique event ids a later startup rescheduling of the store
  installs no job under the primary id or under any lead id of the event. The stored
  list is the list of offsets that the creation scheduled
  (\<open>created_offsets_read_back\<close>), so these are the ids of all jobs the event was
  ever given.
\<close>

theorem delete_cancels_jobs:
  assumes "find (event_matches event_id guild) (events d) = Some row"
  shows "snd (snd (event_delete guild event_id d js)) = EventDeleted
       \<and> row \<notin> set (events (fst (event_delete guild event_id d js)))
       \<and> event_key event_id \<notin> set (job_ids (fst (snd (event_delete guild event_id d js))))
       \<and> (\<forall>m \<in> set (stored_lead_offsets (ev_lead_minutes row)).
            lead_key event_id m \<notin> set (job_ids (fst (snd (event_delete guild event_id d js)))))
       \<and> (distinct (map ev_id (events d)) \<longrightarrow>
            event_key event_id \<notin>
              set (job_ids (fst (schedule_loaded_jobs f now (fst (event_delete guild event_id d js)) [])))
          \<and> lead_key event_id m' \<notin>
              set (job_ids (fst (schedule_loaded_jobs f now (fst (event_delete guild event_id d js)) []))))"
proof -
  let ?js1 = "try_remove_job (event_key event_id) js"
  let ?d' = "fst (event_delete guild event_id d js)"
  from assms have mem: "row \<in> set (events d)" and mt: "event_matches event_id guild row"
    by (auto simp: find_Some_iff in_set_conv_nth)
  from mt have rid: "ev_id row = event_id" by (simp add: event_matches_def)
  have js': "fst (snd (event_delete guild event_id d js)) = remove_lead_jobs event_id (Some row) ?js1"
    using assms by (simp add: event_delete_def Let_def)
  have ev': "events ?d' = filter (\<lambda>r. \<not> event_matches event_id guild r) (events d)"
    by (simp add: event_delete_def Let_def)
  have rm': "reminders ?d' = reminders d"
    by (simp add: event_delete_def Let_def)
  from mem mt have "filter (event_matches event_id guild) (events d) \<noteq> []"
    by (auto simp: filter_empty_conv)
  then have reply: "snd (snd (event_delete guild event_id d js)) = EventDeleted"
    by (simp add: event_delete_def Let_def)
  from mt have gone: "row \<notin> set (events ?d')" by (simp add: ev')
  have "event_key event_id \<notin> set (job_ids ?js1)" by (simp add: job_ids_try_remove)
  with remove_lead_jobs_subset [of event_id "Some row" ?js1]
  have primary: "event_key event_id \<notin> set (job_ids (fst (snd (event_delete guild event_id d js))))"
    unfolding js' by blast
  have leads: "\<forall>m \<in> set (stored_lead_offsets (ev_lead_minutes row)).
            lead_key event_id m \<notin> set (job_ids (fst (snd (event_delete guild event_id d js))))"
    unfolding js' by (auto dest: remove_lead_jobs_removes)
  have restart: "event_key event_id \<notin> set (job_ids (fst (schedule_loaded_jobs f now ?d' [])))
          \<and> lead_key event_id m' \<notin> set (job_ids (fst (schedule_loaded_jobs f now ?d' [])))"
    if di: "distinct (map ev_id (events d))"
  proof -
    have fresh: "ev_id r \<noteq> event_id" if "r \<in> set (events ?d')" for r
    proof
      assume eq: "ev_id r = event_id"
      from that have r: "r \<in> set (events d)" and nm: "\<not> event_matches event_id guild r"
        by (simp_all add: ev')
      from di r mem eq rid have "r = row" by (intro distinct_map_eq [of ev_id "events d"]) simp_all
      with nm mt show False by simp
    qed
    have "jobs_with_id (event_key event_id) (fst (schedule_loaded_jobs f now ?d' []))
            = jobs_with_id (event_key event_id) []"
      by (rule loaded_frame) (use fresh in auto)
    moreover
    have "jobs_with_id (lead_key event_id m') (fst (schedule_loaded_jobs f now ?d' []))
            = jobs_with_id (lead_key event_id m') []"
      by (rule loaded_frame) (use fresh in auto)
    ultimately show ?thesis by (simp add: jobs_with_id_member)
  qed
  from reply gone primary leads restart show ?thesis by blast
qed

theorem delete_cancels_jobs_witness:
  "event_delete (Some 7) 1 lead_db
     [\<lparr>job_id = ''event:1'', job_trigger = DateTrigger 3600000000,
        job_action = SendEvent 7 9 ''party'' None\<rparr>,
      \<lparr>job_id = ''event:1:lead:10'', job_trigger = DateTrigger 3000000000,
        job_action = SendEvent 7 9 ''party starts in 10 min'' None\<rparr>]
     = (empty_db\<lparr>events_seq := 1\<rparr>, [], EventDeleted)
   \<and> event_delete (Some 7) 1 lead_db [] = (empty_db\<lparr>events_seq := 1\<rparr>, [], EventDeleted)
   \<and> lead_key 1 10 \<notin> set (job_ids (fst (snd (event_delete (Some 7) 1 lead_db
        [\<lparr>job_id = ''event:1'', job_trigger = DateTrigger 3600000000,
           job_action = SendEvent 7 9 ''party'' None\<rparr>,
         \<lparr>job_id = ''event:1:lead:10'', job_trigger = DateTrigger 3000000000,
           job_action = SendEvent 7 9 ''party starts in 10 min'' None\<rparr>]))))"
proof -
  have found: "find (event_matches 1 (Some 7)) (events lead_db) = Some lead_event"
    by (simp add: lead_db_def lead_event_def event_matches_def)
  have offs: "stored_lead_offsets (ev_lead_minutes lead_event) = [60, 10]"
    by (simp add: stored_lead_offsets_def lead_event_def parse_60_10)
  have ls: "lead_set ''60,10'' = Inr [60, 10]" by code_simp
  have run: "event_delete (Some 7) 1 lead_db
     [\<lparr>job_id = ''event:1'', job_trigger = DateTrigger 3600000000,
        job_action = SendEvent 7 9 ''party'' None\<rparr>,
      \<lparr>job_id = ''event:1:lead:10'', job_trigger = DateTrigger 3000000000,
        job_action = SendEvent 7 9 ''party starts in 10 min'' None\<rparr>]
     = (empty_db\<lparr>events_seq := 1\<rparr>, [], EventDeleted)"
    by (simp add: event_delete_def Let_def lead_db_def lead_event_def event_matches_def
          remove_lead_jobs_def ls try_remove_job_def remove_job_def keys_1 empty_db_def)
  have run0: "event_delete (Some 7) 1 lead_db [] = (empty_db\<lparr>events_seq := 1\<rparr>, [], EventDeleted)"
    by (simp add: event_delete_def Let_def lead_db_def lead_event_def event_matches_def
          remove_lead_jobs_def ls try_remove_job_def remove_job_def keys_1 empty_db_def)
  from delete_cancels_jobs [OF found] offs run run0 show ?thesis by simp
qed

section \<open>Rows with an instant and a cron expression\<close>











lemma both_request_created:
  "event_create hour_parser any_fields 0 (Some 555) both_request empty_db [] =
     (both_db,
      [\<lparr>job_id = ''event:1'', job_trigger = DateTrigger 3600000000,
        job_action = SendEvent 7 9 ''party'' None\<rparr>],
      Reply EventCreatedAnnounced)"
  by (simp add: event_create_def both_request_def empty_db_def truthy_def create_when_def
        hour_parser_def create_lead_list_def next_id_def new_event_row_def
        insert_event_def create_schedule_def row_event_job_def event_job_def
        keys_1 announce_event_def both_db_def both_event_def user_timezone_def Let_def)




section \<open>A lead offset that leaves the range of the instants\<close>

text \<open>
  \<^verbatim>\<open>run_dt - timedelta(minutes=m)\<close> stands outside every \<^verbatim>\<open>try\<close>, in the creation and in
  the startup rescheduling. With the offsets 1100000000 and 10 the first subtraction
  raises OverflowError: the creation has already committed the row and installed the
  primary job, and ends there; the rescheduling ends at that row.
\<close>

lemma digit_char_0_1: "digit_char 0 = CHR ''0''" "digit_char (Suc 0) = CHR ''1''"
  by code_simp+

lemma str_int_overflow: "str_int 1100000000 = ''1100000000''"
  by (simp add: str_int_def digits.simps digit_char_0_1)

lemma digit_facts:
  "is_digit CHR ''0''" "is_digit CHR ''1''" "\<not> is_digit CHR '',''"
  "\<not> is_space CHR ''0''" "\<not> is_space CHR ''1''"
  "digit_val CHR ''0'' = 0" "digit_val CHR ''1'' = 1"
  by (simp_all add: is_digit_def is_space_def digit_val_def)

lemma py_int_overflow: "py_int ''1100000000'' = Some 1100000000"
  by (simp add: py_int_def strip_def digit_facts digits_value_def)

lemma py_int_10: "py_int ''10'' = Some 10"
  by (simp add: py_int_def strip_def digit_facts digits_value_def)

lemma split_overflow: "split_on CHR '','' ''1100000000,10'' = [''1100000000'', ''10'']"
  by (simp add: split_on_def)

lemma strip_overflow: "strip ''1100000000'' = ''1100000000''" "strip ''10'' = ''10''"
  by (simp_all add: strip_def digit_facts)

lemma parse_overflow: "parse_lead_minutes ''1100000000,10'' = Inr [1100000000, 10]"
  by (simp add: parse_lead_minutes_def lead_set_def split_overflow strip_overflow
        py_int_overflow py_int_10)

lemma join_overflow: "join '','' [''1100000000'', ''10''] = ''1100000000,10''"
  by simp

lemma overflow_request_created:
  "event_create hour_parser any_fields 0 (Some 555) overflow_request empty_db [] =
     (overflow_db,
      [\<lparr>job_id = ''event:1'', job_trigger = DateTrigger 3600000000,
        job_action = SendEvent 7 9 ''party'' None\<rparr>],
      Raised OverflowError)"
  by (simp add: event_create_def overflow_request_def empty_db_def truthy_def create_when_def
        hour_parser_def create_lead_list_def parse_overflow next_id_def new_event_row_def
        insert_event_def create_schedule_def row_event_job_def event_job_def
        minus_minutes_def DT_MIN_def DT_MAX_def keys_1 str_int_overflow overflow_db_def
        overflow_event_def user_timezone_def Let_def)

lemma overflow_db_reloaded:
  "schedule_loaded_jobs any_fields 0 overflow_db [] =
     ([\<lparr>job_id = ''event:1'', job_trigger = DateTrigger 3600000000,
        job_action = SendEvent 7 9 ''party'' None\<rparr>], [], Some OverflowError)"
  by (simp add: schedule_loaded_jobs_def overflow_db_def overflow_event_def empty_db_def
        schedule_dated_event_def stored_lead_offsets_def parse_overflow row_event_job_def
        event_job_def minus_minutes_def DT_MIN_def DT_MAX_def keys_1 Let_def)

lemma blocked_db_reloaded:
  "schedule_loaded_jobs any_fields 0 blocked_db [] =
     ([\<lparr>job_id = ''event:1'', job_trigger = DateTrigger 3600000000,
        job_action = SendEvent 7 9 ''party'' None\<rparr>], [], Some OverflowError)"
  by (simp add: schedule_loaded_jobs_def blocked_db_def overflow_event_def later_event_def
        empty_db_def schedule_dated_event_def stored_lead_offsets_def parse_overflow
        row_event_job_def event_job_def minus_minutes_def DT_MIN_def DT_MAX_def keys_1 Let_def)

lemma keys_2: "event_key 2 = ''event:2''"
  by code_simp

lemma later_request_created:
  "event_create hour_parser any_fields 0 (Some 556) later_request overflow_db
     [\<lparr>job_id = ''event:1'', job_trigger = DateTrigger 3600000000,
       job_action = SendEvent 7 9 ''party'' None\<rparr>] =
     (blocked_db,
      [\<lparr>job_id = ''event:1'', job_trigger = DateTrigger 3600000000,
        job_action = SendEvent 7 9 ''party'' None\<rparr>,
       \<lparr>job_id = ''event:2'', job_trigger = DateTrigger 3600000000,
        job_action = SendEvent 7 9 ''review'' None\<rparr>],
      Reply EventCreatedAnnounced)"
  by (simp add: event_create_def later_request_def overflow_db_def overflow_event_def
        empty_db_def truthy_def create_when_def hour_parser_def create_lead_list_def
        next_id_def new_event_row_def insert_event_def create_schedule_def row_event_job_def
        event_job_def keys_1 keys_2 announce_event_def blocked_db_def
        later_event_def user_timezone_def Let_def)

lemma both_db_reloaded_late:
  "schedule_loaded_jobs any_fields 4000000000 both_db [] =
     ([\<lparr>job_id = ''event:1'', job_trigger = CronTrigger ''0'' ''19'' ''*'' ''*'' ''2'',
        job_action = SendEvent 7 9 ''party'' None\<rparr>], [], None)"
  by (simp add: schedule_loaded_jobs_def both_db_def both_event_def empty_db_def
        schedule_dated_event_def stored_lead_offsets_def row_event_job_def event_job_def
        keys_1 cron_weekly)

text \<open>
  C2 fails in the code. The offset string \<^verbatim>\<open>1100000000,10\<close> gives the distinct positive
  offsets 1100000000 and 10, and the instant minus 10 minutes is strictly after the
  clock. The creation raises OverflowError at the first offset and no job exists under
  \<^verbatim>\<open>event:1:lead:10\<close>; the row is stored, and the startup rescheduling of that store
  raises at the same place, again with no job under \<^verbatim>\<open>event:1:lead:10\<close>.
\<close>

theorem lead_job_lost_on_overflow:
  "create_lead_list overflow_request = Inr [1100000000, 10]
   \<and> (0::int) < 3600000000 - 10 * 60000000
   \<and> event_create hour_parser any_fields 0 (Some 555) overflow_request empty_db [] =
     (overflow_db,
      [\<lparr>job_id = ''event:1'', job_trigger = DateTrigger 3600000000,
        job_action = SendEvent 7 9 ''party'' None\<rparr>],
      Raised OverflowError)
   \<and> jobs_with_id (lead_key 1 10)
        (fst (snd (event_create hour_parser any_fields 0 (Some 555) overflow_request empty_db [])))
       = []
   \<and> events overflow_db = [overflow_event]
   \<and> ev_when_utc overflow_event = Some 3600000000
   \<and> stored_lead_offsets (ev_lead_minutes overflow_event) = [1100000000, 10]
   \<and> schedule_loaded_jobs any_fields 0 overflow_db [] =
     ([\<lparr>job_id = ''event:1'', job_trigger = DateTrigger 3600000000,
        job_action = SendEvent 7 9 ''party'' None\<rparr>], [], Some OverflowError)
   \<and> jobs_with_id (lead_key (ev_id overflow_event) 10)
        (fst (schedule_loaded_jobs any_fields 0 overflow_db [])) = []"
  by (simp add: overflow_request_created overflow_db_reloaded)
     (simp add: create_lead_list_def overflow_request_def stored_lead_offsets_def
        overflow_event_def overflow_db_def empty_db_def parse_overflow keys_1 jobs_with_id_def)

section \<open>Primary jobs that the startup rescheduling misses or adds\<close>

text \<open>
  C1 fails in the code. First input: the event of the previous section is created
  (the call raises, the row stays), then a second event one hour ahead; both creations
  install their primary job. The startup rescheduling of that store, at the same
  clock, raises OverflowError at the first row's lead offset and ends: the second
  event, whose instant is strictly in the future, has no job under \<^verbatim>\<open>event:2\<close>. Second
  input: a creation with both \<^verbatim>\<open>when\<close> and \<^verbatim>\<open>cron\<close> stores both and installs the date job;
  a startup rescheduling after the instant has passed installs a job under \<^verbatim>\<open>event:1\<close>,
  the cron job, for an event whose instant is not strictly in the future.
\<close>

theorem reload_breaks_primary_jobs:
  "event_create hour_parser any_fields 0 (Some 555) overflow_request empty_db [] =
     (overflow_db,
      [\<lparr>job_id = ''event:1'', job_trigger = DateTrigger 3600000000,
        job_action = SendEvent 7 9 ''party'' None\<rparr>],
      Raised OverflowError)
   \<and> event_create hour_parser any_fields 0 (Some 556) later_request overflow_db
       [\<lparr>job_id = ''event:1'', job_trigger = DateTrigger 3600000000,
         job_action = SendEvent 7 9 ''party'' None\<rparr>] =
     (blocked_db,
      [\<lparr>job_id = ''event:1'', job_trigger = DateTrigger 3600000000,
        job_action = SendEvent 7 9 ''party'' None\<rparr>,
       \<lparr>job_id = ''event:2'', job_trigger = DateTrigger 3600000000,
        job_action = SendEvent 7 9 ''review'' None\<rparr>],
      Reply EventCreatedAnnounced)
   \<and> events blocked_db = [overflow_event, later_event]
   \<and> ev_when_utc later_event = Some 3600000000 \<and> (0::int) < 3600000000
   \<and> schedule_loaded_jobs any_fields 0 blocked_db [] =
     ([\<lparr>job_id = ''event:1'', job_trigger = DateTrigger 3600000000,
        job_action = SendEvent 7 9 ''party'' None\<rparr>], [], Some OverflowError)
   \<and> jobs_with_id (event_key (ev_id later_event))
        (fst (schedule_loaded_jobs any_fields 0 blocked_db [])) = []
   \<and> event_create hour_parser any_fields 0 (Some 555) both_request empty_db [] =
     (both_db,
      [\<lparr>job_id = ''event:1'', job_trigger = DateTrigger 3600000000,
        job_action = SendEvent 7 9 ''party'' None\<rparr>],
      Reply EventCreatedAnnounced)
   \<and> events both_db = [both_event]
   \<and> ev_when_utc both_event = Some 3600000000 \<and> \<not> (4000000000::int) < 3600000000
   \<and> schedule_loaded_jobs any_fields 4000000000 both_db [] =
     ([\<lparr>job_id = ''event:1'', job_trigger = CronTrigger ''0'' ''19'' ''*'' ''*'' ''2'',
        job_action = SendEvent 7 9 ''party'' None\<rparr>], [], None)
   \<and> jobs_with_id (event_key (ev_id both_event))
        (fst (schedule_loaded_jobs any_fields 4000000000 both_db [])) =
       [\<lparr>job_id = ''event:1'', job_trigger = CronTrigger ''0'' ''19'' ''*'' ''*'' ''2'',
         job_action = SendEvent 7 9 ''party'' None\<rparr>]"
  by (simp add: overflow_request_created later_request_created blocked_db_reloaded
        both_request_created both_db_reloaded_late)
     (simp add: both_event_def both_db_def later_event_def blocked_db_def empty_db_def
        keys_1 keys_2 jobs_with_id_def)

end
